theory Spec2Isabelle
  imports Complex_Main
begin

section \<open>NumPy arrays as values\<close>

text \<open>
  The wrapper class \<open>M\<close> of \<open>matlabpy.py\<close> holds one attribute, \<open>A\<close>, a NumPy array.
  An array is modelled the way NumPy stores it: a shape and the elements in row-major
  (C) order. The element type is a parameter: the module never looks inside a float,
  it only moves floats around or hands them to library routines.
\<close>

datatype pyerr = ValueError | IndexError | TypeError | OverflowError | LinAlgError

record 'e ndarray =
  shape :: "nat list"
  elems :: "'e list"

definition wf_array :: "'e ndarray \<Rightarrow> bool" where
  "wf_array a = (length (elems a) = prod_list (shape a))"

subsection \<open>Basic indexing: integers and slices\<close>

text \<open>
  An index is a Python \<open>int\<close>, a NumPy integer scalar (which is not an instance of
  \<open>int\<close>), or a slice \<open>start:stop:step\<close> with optional parts. A key is one index or a
  tuple of indices; NumPy reads a key that is not a tuple as the one-element tuple.
  The other kinds of index (\<open>bool\<close>, \<open>None\<close>, \<open>Ellipsis\<close>, arrays) are left out.
\<close>

datatype idx = IInt int | INp int | ISlice "int option" "int option" "int option"

datatype key = KOne idx | KTuple "idx list"

fun key_indices :: "key \<Rightarrow> idx list" where
  "key_indices (KOne i) = [i]"
| "key_indices (KTuple is) = is"

text \<open>\<open>range(start, stop, step)\<close> for a non-zero step.\<close>

definition py_range :: "int \<Rightarrow> int \<Rightarrow> int \<Rightarrow> int list" where
  "py_range start stop step =
     (let n = (if 0 < step then (stop - start + step - 1) div step
               else (start - stop - step - 1) div (- step))
      in map (\<lambda>k. start + int k * step) [0..<nat n])"

text \<open>\<open>slice.indices(n)\<close>: the start and stop of a slice on an axis of length \<open>n\<close>.\<close>

definition slice_bound :: "int \<Rightarrow> int \<Rightarrow> int \<Rightarrow> int option \<Rightarrow> int \<Rightarrow> int" where
  "slice_bound n lower upper b dflt =
     (case b of None \<Rightarrow> dflt
      | Some v \<Rightarrow> if v < 0 then max (v + n) lower else min v upper)"

definition slice_indices :: "nat \<Rightarrow> int option \<Rightarrow> int option \<Rightarrow> int option \<Rightarrow> pyerr + nat list" where
  "slice_indices n start stop step =
     (let st = (case step of None \<Rightarrow> 1 | Some s \<Rightarrow> s) in
      if st = 0 then Inl ValueError
      else let lower = (if st < 0 then - 1 else 0);
               upper = (if st < 0 then int n - 1 else int n);
               a = slice_bound (int n) lower upper start (if st < 0 then upper else lower);
               b = slice_bound (int n) lower upper stop (if st < 0 then lower else upper)
           in Inr (map nat (py_range a b st)))"

text \<open>
  What one index selects on an axis of length \<open>n\<close>: an integer picks one position and
  drops the axis (a negative integer counts from the end, an integer outside
  \<open>-n..n-1\<close> raises \<open>IndexError\<close>); a slice keeps the axis with the positions of its
  range.
\<close>

datatype axis_sel = Pick nat | Span "nat list"

fun sel_indices :: "axis_sel \<Rightarrow> nat list" where
  "sel_indices (Pick p) = [p]"
| "sel_indices (Span ps) = ps"

fun is_pick :: "axis_sel \<Rightarrow> bool" where
  "is_pick (Pick p) = True"
| "is_pick (Span ps) = False"

definition int_index :: "nat \<Rightarrow> int \<Rightarrow> pyerr + axis_sel" where
  "int_index n i =
     (if - int n \<le> i \<and> i < int n then Inr (Pick (nat (if i < 0 then i + int n else i)))
      else Inl IndexError)"

fun axis_select :: "nat \<Rightarrow> idx \<Rightarrow> pyerr + axis_sel" where
  "axis_select n (IInt i) = int_index n i"
| "axis_select n (INp i) = int_index n i"
| "axis_select n (ISlice a b c) =
     (case slice_indices n a b c of Inl e \<Rightarrow> Inl e | Inr ps \<Rightarrow> Inr (Span ps))"

text \<open>Axes the key does not reach are taken whole.\<close>

fun select_axes :: "nat list \<Rightarrow> idx list \<Rightarrow> pyerr + axis_sel list" where
  "select_axes ds [] = Inr (map (\<lambda>d. Span [0..<d]) ds)"
| "select_axes [] (i # is) = Inl IndexError"
| "select_axes (d # ds) (i # is) =
     (case axis_select d i of
        Inl e \<Rightarrow> Inl e
      | Inr s \<Rightarrow> (case select_axes ds is of Inl e \<Rightarrow> Inl e | Inr ss \<Rightarrow> Inr (s # ss)))"

text \<open>The row-major offsets of the selected elements, in the order of the result.\<close>

fun positions :: "nat list \<Rightarrow> axis_sel list \<Rightarrow> nat list" where
  "positions [] ss = [0]"
| "positions (d # ds) [] = []"
| "positions (d # ds) (s # ss) =
     concat (map (\<lambda>p. map (\<lambda>q. p * prod_list ds + q) (positions ds ss)) (sel_indices s))"

definition sel_shape :: "axis_sel list \<Rightarrow> nat list" where
  "sel_shape ss = concat (map (\<lambda>s. case s of Pick p \<Rightarrow> [] | Span ps \<Rightarrow> [length ps]) ss)"

text \<open>
  \<open>a[key]\<close>. With an integer on every axis the result is the element itself; otherwise
  it is an array (in NumPy a view onto the same buffer; the model gives its contents).
  More indices than axes raise \<open>IndexError\<close> before any index is looked at.
\<close>

datatype 'e item = Scalar 'e | View "'e ndarray"

definition np_getitem :: "'e ndarray \<Rightarrow> key \<Rightarrow> pyerr + 'e item" where
  "np_getitem a k =
     (if length (shape a) < length (key_indices k) then Inl IndexError
      else case select_axes (shape a) (key_indices k) of
        Inl e \<Rightarrow> Inl e
      | Inr ss \<Rightarrow>
          if list_all is_pick ss then Inr (Scalar (elems a ! hd (positions (shape a) ss)))
          else Inr (View \<lparr>shape = sel_shape ss,
                          elems = map (\<lambda>p. elems a ! p) (positions (shape a) ss)\<rparr>))"

subsection \<open>Transposition and copies\<close>

text \<open>
  \<open>a.T\<close> reverses the axes. For the first axis of length \<open>d\<close>, the \<open>d\<close> blocks are
  transposed on their own and then interleaved, so that the first axis becomes the last.
\<close>

fun nd_transpose :: "nat list \<Rightarrow> 'e list \<Rightarrow> 'e list" where
  "nd_transpose [] xs = xs"
| "nd_transpose (d # ds) xs =
     concat (transpose (map (\<lambda>i. nd_transpose ds (take (prod_list ds) (drop (i * prod_list ds) xs)))
                            [0..<d]))"

definition np_transpose :: "'e ndarray \<Rightarrow> 'e ndarray" where
  "np_transpose a = \<lparr>shape = rev (shape a), elems = nd_transpose (shape a) (elems a)\<rparr>"

text \<open>\<open>a.copy()\<close> is a new array object with the same contents.\<close>

definition np_copy :: "'e ndarray \<Rightarrow> 'e ndarray" where
  "np_copy a = \<lparr>shape = shape a, elems = elems a\<rparr>"

subsection \<open>The library\<close>

text \<open>
  Floats are a type parameter \<open>'f\<close>, and what Python and NumPy compute on them is a
  record of library routines: \<open>float(str)\<close> (\<open>None\<close> where it raises \<open>ValueError\<close>),
  \<open>float(int)\<close> (\<open>None\<close> where it raises \<open>OverflowError\<close>), the float arithmetic, the
  inner product of two float vectors, and the routines of \<open>numpy.linalg\<close>. A library
  array is a float array or a complex array (pairs of real and imaginary part).
\<close>

datatype 'f nparray = FloatArr "'f ndarray" | ComplexArr "('f \<times> 'f) ndarray"

record 'f numlib =
  str_to_float :: "string \<Rightarrow> 'f option"
  int_to_float :: "int \<Rightarrow> 'f option"
  f_add :: "'f \<Rightarrow> 'f \<Rightarrow> 'f"
  f_sub :: "'f \<Rightarrow> 'f \<Rightarrow> 'f"
  f_mul :: "'f \<Rightarrow> 'f \<Rightarrow> 'f"
  f_div :: "'f \<Rightarrow> 'f \<Rightarrow> 'f"
  f_pow :: "'f \<Rightarrow> 'f \<Rightarrow> 'f"
  f_neg :: "'f \<Rightarrow> 'f"
  vdot :: "'f list \<Rightarrow> 'f list \<Rightarrow> 'f"
  matmul_other :: "'f ndarray \<Rightarrow> 'f ndarray \<Rightarrow> pyerr + 'f ndarray"
  linalg_inv :: "'f ndarray \<Rightarrow> pyerr + 'f ndarray"
  linalg_pinv :: "'f ndarray \<Rightarrow> pyerr + 'f ndarray"
  linalg_det :: "'f ndarray \<Rightarrow> pyerr + 'f item"
  linalg_matrix_rank :: "'f ndarray \<Rightarrow> pyerr + int item"
  linalg_eig :: "'f ndarray \<Rightarrow> pyerr + 'f nparray \<times> 'f nparray"
  linalg_matrix_power :: "'f ndarray \<Rightarrow> int \<Rightarrow> pyerr + 'f ndarray"

subsection \<open>\<open>np.array(data, dtype=float)\<close>\<close>

text \<open>
  Python data handed to \<open>np.array\<close>: numbers and nested lists of them. NumPy first
  finds the shape (a list whose items do not all have one shape is refused with
  \<open>ValueError\<close> when a float array is asked for; the empty list has shape \<open>(0,)\<close>), then
  converts every number with \<open>float\<close>: an \<open>int\<close> is converted, a \<open>complex\<close> raises
  \<open>TypeError\<close>.
\<close>

datatype 'f pynum = PInt int | PFloat 'f | PComplex 'f 'f

datatype 'f pyobj = PNum "'f pynum" | PList "'f pyobj list"

fun same_shapes :: "nat list option list \<Rightarrow> nat list option" where
  "same_shapes [] = Some [0]"
| "same_shapes (None # ss) = None"
| "same_shapes (Some d # ss) =
     (if list_all (\<lambda>t. t = Some d) ss then Some (Suc (length ss) # d) else None)"

fun obj_shape :: "'f pyobj \<Rightarrow> nat list option" where
  "obj_shape (PNum x) = Some []"
| "obj_shape (PList xs) = same_shapes (map obj_shape xs)"

fun obj_leaves :: "'f pyobj \<Rightarrow> 'f pynum list" where
  "obj_leaves (PNum x) = [x]"
| "obj_leaves (PList xs) = concat (map obj_leaves xs)"

fun to_float :: "'f numlib \<Rightarrow> 'f pynum \<Rightarrow> pyerr + 'f" where
  "to_float L (PInt i) = (case int_to_float L i of None \<Rightarrow> Inl OverflowError | Some x \<Rightarrow> Inr x)"
| "to_float L (PFloat x) = Inr x"
| "to_float L (PComplex x y) = Inl TypeError"

text \<open>The results of a left-to-right traversal: the first error, or all the values.\<close>

fun collect :: "(pyerr + 'a) list \<Rightarrow> pyerr + 'a list" where
  "collect [] = Inr []"
| "collect (Inl e # rs) = Inl e"
| "collect (Inr x # rs) = (case collect rs of Inl e \<Rightarrow> Inl e | Inr xs \<Rightarrow> Inr (x # xs))"

definition array_of_obj :: "'f numlib \<Rightarrow> 'f pyobj \<Rightarrow> pyerr + 'f ndarray" where
  "array_of_obj L obj =
     (case obj_shape obj of
        None \<Rightarrow> Inl ValueError
      | Some s \<Rightarrow>
          (case collect (map (to_float L) (obj_leaves obj)) of
             Inl e \<Rightarrow> Inl e
           | Inr xs \<Rightarrow> Inr \<lparr>shape = s, elems = xs\<rparr>))"

text \<open>
  From an array, \<open>np.array(a, dtype=float)\<close> is a copy; a complex array is cast to
  float, which keeps the real parts and drops the imaginary parts (NumPy warns with
  \<open>ComplexWarning\<close> and goes on).
\<close>

fun array_of_nparray :: "'f nparray \<Rightarrow> 'f ndarray" where
  "array_of_nparray (FloatArr a) = np_copy a"
| "array_of_nparray (ComplexArr a) = \<lparr>shape = shape a, elems = map fst (elems a)\<rparr>"

subsection \<open>Assignment to a selection\<close>

text \<open>
  \<open>a[key] = v\<close> for a number \<open>v\<close>: every selected element becomes \<open>float(v)\<close>. The key is
  resolved before the value is converted.
\<close>

definition np_setitem :: "'f numlib \<Rightarrow> 'f ndarray \<Rightarrow> key \<Rightarrow> 'f pynum \<Rightarrow> pyerr + 'f ndarray" where
  "np_setitem L a k v =
     (if length (shape a) < length (key_indices k) then Inl IndexError
      else case select_axes (shape a) (key_indices k) of
        Inl e \<Rightarrow> Inl e
      | Inr ss \<Rightarrow>
          (case to_float L v of
             Inl e \<Rightarrow> Inl e
           | Inr x \<Rightarrow> Inr \<lparr>shape = shape a,
                            elems = fold (\<lambda>p xs. xs[p := x]) (positions (shape a) ss) (elems a)\<rparr>))"

subsection \<open>Elementwise arithmetic\<close>

text \<open>
  \<open>a + b\<close>, \<open>a - b\<close>, \<open>a * b\<close>, \<open>a / b\<close> and \<open>a ** b\<close> on arrays work element by element
  after broadcasting: the shapes are aligned at their last axes, two lengths go
  together when they are equal or one of them is 1, and an axis of length 1 (or a
  missing one) is repeated. Shapes that do not go together raise \<open>ValueError\<close>.
\<close>

fun bc_rev :: "nat list \<Rightarrow> nat list \<Rightarrow> nat list option" where
  "bc_rev [] ys = Some ys"
| "bc_rev (x # xs) [] = Some (x # xs)"
| "bc_rev (x # xs) (y # ys) =
     (case bc_rev xs ys of
        None \<Rightarrow> None
      | Some zs \<Rightarrow>
          if x = y then Some (x # zs)
          else if x = 1 then Some (y # zs)
          else if y = 1 then Some (x # zs)
          else None)"

definition broadcast_shape :: "nat list \<Rightarrow> nat list \<Rightarrow> nat list option" where
  "broadcast_shape s t = map_option rev (bc_rev (rev s) (rev t))"

definition block :: "nat \<Rightarrow> nat \<Rightarrow> 'e list \<Rightarrow> 'e list" where
  "block n i xs = take n (drop (i * n) xs)"

fun broadcast_to :: "nat list \<Rightarrow> nat list \<Rightarrow> 'e list \<Rightarrow> 'e list" where
  "broadcast_to [] s xs = xs"
| "broadcast_to (t # ts) s xs =
     (if length s \<le> length ts then concat (replicate t (broadcast_to ts s xs))
      else (case s of
              [] \<Rightarrow> xs
            | d # ds \<Rightarrow>
                if d = t
                then concat (map (\<lambda>i. broadcast_to ts ds (block (prod_list ds) i xs)) [0..<t])
                else concat (replicate t (broadcast_to ts ds xs))))"

definition np_binop :: "('f \<Rightarrow> 'f \<Rightarrow> 'f) \<Rightarrow> 'f ndarray \<Rightarrow> 'f ndarray \<Rightarrow> pyerr + 'f ndarray" where
  "np_binop f a b =
     (case broadcast_shape (shape a) (shape b) of
        None \<Rightarrow> Inl ValueError
      | Some s \<Rightarrow>
          Inr \<lparr>shape = s,
               elems = map2 f (broadcast_to s (shape a) (elems a))
                              (broadcast_to s (shape b) (elems b))\<rparr>)"

subsection \<open>The matrix product\<close>

text \<open>
  \<open>a @ b\<close> for two-dimensional arrays of shapes \<open>(m, k)\<close> and \<open>(k', n)\<close>: \<open>ValueError\<close>
  unless \<open>k = k'\<close>, else the array of shape \<open>(m, n)\<close> whose entry \<open>(i, j)\<close> is the library's
  inner product of row \<open>i\<close> of \<open>a\<close> and column \<open>j\<close> of \<open>b\<close>. For operands of other
  dimensions the product is left to the library.
\<close>

definition row_of :: "'e ndarray \<Rightarrow> nat \<Rightarrow> 'e list" where
  "row_of a i = block (shape a ! 1) i (elems a)"

definition col_of :: "'e ndarray \<Rightarrow> nat \<Rightarrow> 'e list" where
  "col_of a j = map (\<lambda>l. elems a ! (l * (shape a ! 1) + j)) [0..<shape a ! 0]"

definition np_matmul :: "'f numlib \<Rightarrow> 'f ndarray \<Rightarrow> 'f ndarray \<Rightarrow> pyerr + 'f ndarray" where
  "np_matmul L a b =
     (if length (shape a) = 2 \<and> length (shape b) = 2 then
        if shape a ! 1 \<noteq> shape b ! 0 then Inl ValueError
        else Inr \<lparr>shape = [shape a ! 0, shape b ! 1],
                  elems = concat (map (\<lambda>i. map (\<lambda>j. vdot L (row_of a i) (col_of b j))
                                                [0..<shape b ! 1])
                                      [0..<shape a ! 0])\<rparr>
      else matmul_other L a b)"

subsection \<open>Stacking\<close>

text \<open>
  \<open>np.concatenate\<close> along axis 0 or 1: no array at all, arrays of different
  dimensions, an axis the arrays do not have, or shapes that differ off the axis
  raise \<open>ValueError\<close>. Along axis 0 the buffers follow each other; along axis 1 the
  blocks of the first axis do.
\<close>

definition off_axis :: "nat \<Rightarrow> nat list \<Rightarrow> nat list" where
  "off_axis ax s = take ax s @ drop (Suc ax) s"

definition np_concatenate :: "nat \<Rightarrow> 'e ndarray list \<Rightarrow> pyerr + 'e ndarray" where
  "np_concatenate ax arrs =
     (case arrs of
        [] \<Rightarrow> Inl ValueError
      | a0 # rest \<Rightarrow>
          if \<not> list_all (\<lambda>a. length (shape a) = length (shape a0)) rest then Inl ValueError
          else if length (shape a0) \<le> ax \<or> 1 < ax then Inl ValueError
          else if \<not> list_all (\<lambda>a. off_axis ax (shape a) = off_axis ax (shape a0)) rest
          then Inl ValueError
          else if ax = 0
          then Inr \<lparr>shape = sum_list (map (\<lambda>a. hd (shape a)) arrs) # tl (shape a0),
                    elems = concat (map elems arrs)\<rparr>
          else Inr \<lparr>shape = hd (shape a0) # sum_list (map (\<lambda>a. shape a ! 1) arrs)
                              # drop 2 (shape a0),
                    elems = concat (map (\<lambda>i. concat (map (\<lambda>a. block (prod_list (tl (shape a))) i
                                                                   (elems a)) arrs))
                                        [0..<hd (shape a0)])\<rparr>)"

text \<open>
  \<open>np.atleast_1d\<close> and \<open>np.atleast_2d\<close> give a scalar array the shape \<open>(1,)\<close> or
  \<open>(1, 1)\<close>, and a vector of length \<open>n\<close> the shape \<open>(1, n)\<close>. \<open>np.vstack\<close> concatenates
  along axis 0 after \<open>atleast_2d\<close>; \<open>np.hstack\<close>, after \<open>atleast_1d\<close>, along axis 0 when
  the first array is a vector and along axis 1 otherwise.
\<close>

definition atleast_1d :: "'e ndarray \<Rightarrow> 'e ndarray" where
  "atleast_1d a = (if shape a = [] then \<lparr>shape = [1], elems = elems a\<rparr> else a)"

definition atleast_2d :: "'e ndarray \<Rightarrow> 'e ndarray" where
  "atleast_2d a =
     (case shape a of
        [] \<Rightarrow> \<lparr>shape = [1, 1], elems = elems a\<rparr>
      | [n] \<Rightarrow> \<lparr>shape = [1, n], elems = elems a\<rparr>
      | _ \<Rightarrow> a)"

definition np_vstack :: "'e ndarray list \<Rightarrow> pyerr + 'e ndarray" where
  "np_vstack arrs = np_concatenate 0 (map atleast_2d arrs)"

definition np_hstack :: "'e ndarray list \<Rightarrow> pyerr + 'e ndarray" where
  "np_hstack arrs =
     (let arrs1 = map atleast_1d arrs in
      if arrs1 \<noteq> [] \<and> length (shape (hd arrs1)) = 1 then np_concatenate 0 arrs1
      else np_concatenate 1 arrs1)"

subsection \<open>Conjugation\<close>

text \<open>\<open>a.conj()\<close> changes nothing in a float array and negates the imaginary parts of a complex one.\<close>

fun arr_conj :: "'f numlib \<Rightarrow> 'f nparray \<Rightarrow> 'f nparray" where
  "arr_conj L (FloatArr a) = FloatArr (np_copy a)"
| "arr_conj L (ComplexArr a) =
     ComplexArr \<lparr>shape = shape a, elems = map (\<lambda>(x, y). (x, f_neg L y)) (elems a)\<rparr>"

fun arr_transpose :: "'f nparray \<Rightarrow> 'f nparray" where
  "arr_transpose (FloatArr a) = FloatArr (np_transpose a)"
| "arr_transpose (ComplexArr a) = ComplexArr (np_transpose a)"

section \<open>The wrapper class\<close>

text \<open>
  Arrays are mutable objects: \<open>__setitem__\<close> writes into the array an \<open>M\<close> refers to.
  The store is the list of the array objects allocated so far, an \<open>M\<close> holds the address
  of its array in the attribute \<open>A\<close>. Every array an \<open>M\<close> refers to has float entries:
  the only assignment to \<open>self.A\<close> is in \<open>__init__\<close>, from \<open>np.array(data, dtype=float)\<close>
  or from the copy of another \<open>M\<close>'s array. A method returns its result, or the
  exception it raised, together with the store it leaves. The constructors \<open>zeros\<close>,
  \<open>ones\<close>, \<open>eye\<close>, \<open>rand\<close>, \<open>linspace\<close> and \<open>diag\<close> and the methods \<open>__repr__\<close> and
  \<open>__str__\<close> are not part of this development.
\<close>

type_synonym 'f store = "'f ndarray list"

record M =
  A :: nat

text \<open>
  \<^verbatim>\<open>
  def __init__(self, data):
      if isinstance(data, M):
          self.A = data.A.copy()
      else:
          self.A = np.array(data, dtype=float)
  \<close>
\<close>

datatype 'f pydata = DM M | DArr "'f nparray" | DObj "'f pyobj"

definition alloc :: "'f store \<Rightarrow> 'f ndarray \<Rightarrow> (pyerr + M) \<times> 'f store" where
  "alloc st a = (Inr \<lparr>A = length st\<rparr>, st @ [a])"

fun M_init :: "'f numlib \<Rightarrow> 'f store \<Rightarrow> 'f pydata \<Rightarrow> (pyerr + M) \<times> 'f store" where
  "M_init L st (DM b) = alloc st (np_copy (st ! A b))"
| "M_init L st (DArr a) = alloc st (array_of_nparray a)"
| "M_init L st (DObj obj) =
     (case array_of_obj L obj of Inl e \<Rightarrow> (Inl e, st) | Inr a \<Rightarrow> alloc st a)"

subsection \<open>Indexing\<close>

text \<open>
  \<^verbatim>\<open>
  def __call__(self, *idx):
      idx = tuple(i - 1 if isinstance(i, int) else i for i in idx)
      return self.A[idx]

  def __getitem__(self, key):
      return self.A[key]

  def __setitem__(self, key, value):
      self.A[key] = value
  \<close>
\<close>

fun shift_idx :: "idx \<Rightarrow> idx" where
  "shift_idx (IInt i) = IInt (i - 1)"
| "shift_idx (INp i) = INp i"
| "shift_idx (ISlice a b c) = ISlice a b c"

definition M_call :: "'f store \<Rightarrow> M \<Rightarrow> idx list \<Rightarrow> pyerr + 'f item" where
  "M_call st self idx = np_getitem (st ! A self) (KTuple (map shift_idx idx))"

definition M_getitem :: "'f store \<Rightarrow> M \<Rightarrow> key \<Rightarrow> pyerr + 'f item" where
  "M_getitem st self k = np_getitem (st ! A self) k"

definition M_setitem :: "'f numlib \<Rightarrow> 'f store \<Rightarrow> M \<Rightarrow> key \<Rightarrow> 'f pynum \<Rightarrow> (pyerr + unit) \<times> 'f store" where
  "M_setitem L st self k v =
     (case np_setitem L (st ! A self) k v of
        Inl e \<Rightarrow> (Inl e, st)
      | Inr a \<Rightarrow> (Inr (), st[A self := a]))"

subsection \<open>Shape helpers\<close>

text \<open>
  \<^verbatim>\<open>
  @property
  def T(self):
      return M(self.A.T)

  @property
  def H(self):
      return M(self.A.conj().T)

  @property
  def shape(self):
      return self.A.shape
  \<close>
\<close>

definition M_T :: "'f numlib \<Rightarrow> 'f store \<Rightarrow> M \<Rightarrow> (pyerr + M) \<times> 'f store" where
  "M_T L st self = M_init L st (DArr (arr_transpose (FloatArr (st ! A self))))"

definition M_H :: "'f numlib \<Rightarrow> 'f store \<Rightarrow> M \<Rightarrow> (pyerr + M) \<times> 'f store" where
  "M_H L st self = M_init L st (DArr (arr_transpose (arr_conj L (FloatArr (st ! A self)))))"

definition M_shape :: "'f store \<Rightarrow> M \<Rightarrow> nat list" where
  "M_shape st self = shape (st ! A self)"

subsection \<open>Operators\<close>

text \<open>
  \<^verbatim>\<open>
  def _unwrap(x):
      return x.A if isinstance(x, M) else x
  \<close>
  The other operand is an \<open>M\<close> or a float array handed over as it is.
\<close>

datatype 'f operand = OM M | OArr "'f ndarray"

fun unwrap :: "'f store \<Rightarrow> 'f operand \<Rightarrow> 'f ndarray" where
  "unwrap st (OM x) = st ! A x"
| "unwrap st (OArr a) = a"

text \<open>\<open>M(r)\<close> for what a library routine returned, or the exception it raised.\<close>

definition M_of_result :: "'f numlib \<Rightarrow> 'f store \<Rightarrow> pyerr + 'f ndarray \<Rightarrow> (pyerr + M) \<times> 'f store" where
  "M_of_result L st r =
     (case r of Inl e \<Rightarrow> (Inl e, st) | Inr a \<Rightarrow> M_init L st (DArr (FloatArr a)))"

text \<open>
  \<^verbatim>\<open>
  def __add__(self, other):
      return M(self.A + _unwrap(other))

  def __sub__(self, other):
      return M(self.A - _unwrap(other))

  def __mul__(self, other):
      return M(self.A @ _unwrap(other))  # Matrix multiply

  def __truediv__(self, other):
      return M(self.A @ np.linalg.inv(_unwrap(other)))

  def __pow__(self, p):
      return M(np.linalg.matrix_power(self.A, p))
  \<close>
\<close>

definition M_add :: "'f numlib \<Rightarrow> 'f store \<Rightarrow> M \<Rightarrow> 'f operand \<Rightarrow> (pyerr + M) \<times> 'f store" where
  "M_add L st self other = M_of_result L st (np_binop (f_add L) (st ! A self) (unwrap st other))"

definition M_sub :: "'f numlib \<Rightarrow> 'f store \<Rightarrow> M \<Rightarrow> 'f operand \<Rightarrow> (pyerr + M) \<times> 'f store" where
  "M_sub L st self other = M_of_result L st (np_binop (f_sub L) (st ! A self) (unwrap st other))"

definition M_mul :: "'f numlib \<Rightarrow> 'f store \<Rightarrow> M \<Rightarrow> 'f operand \<Rightarrow> (pyerr + M) \<times> 'f store" where
  "M_mul L st self other = M_of_result L st (np_matmul L (st ! A self) (unwrap st other))"

definition M_truediv :: "'f numlib \<Rightarrow> 'f store \<Rightarrow> M \<Rightarrow> 'f operand \<Rightarrow> (pyerr + M) \<times> 'f store" where
  "M_truediv L st self other =
     (case linalg_inv L (unwrap st other) of
        Inl e \<Rightarrow> (Inl e, st)
      | Inr b \<Rightarrow> M_of_result L st (np_matmul L (st ! A self) b))"

definition M_pow :: "'f numlib \<Rightarrow> 'f store \<Rightarrow> M \<Rightarrow> int \<Rightarrow> (pyerr + M) \<times> 'f store" where
  "M_pow L st self p = M_of_result L st (linalg_matrix_power L (st ! A self) p)"

text \<open>
  \<^verbatim>\<open>
  def emul(self, other):
      return M(self.A * _unwrap(other))

  def ediv(self, other):
      return M(self.A / _unwrap(other))

  def epow(self, other):
      return M(self.A ** _unwrap(other))
  \<close>
\<close>

definition M_emul :: "'f numlib \<Rightarrow> 'f store \<Rightarrow> M \<Rightarrow> 'f operand \<Rightarrow> (pyerr + M) \<times> 'f store" where
  "M_emul L st self other = M_of_result L st (np_binop (f_mul L) (st ! A self) (unwrap st other))"

definition M_ediv :: "'f numlib \<Rightarrow> 'f store \<Rightarrow> M \<Rightarrow> 'f operand \<Rightarrow> (pyerr + M) \<times> 'f store" where
  "M_ediv L st self other = M_of_result L st (np_binop (f_div L) (st ! A self) (unwrap st other))"

definition M_epow :: "'f numlib \<Rightarrow> 'f store \<Rightarrow> M \<Rightarrow> 'f operand \<Rightarrow> (pyerr + M) \<times> 'f store" where
  "M_epow L st self other = M_of_result L st (np_binop (f_pow L) (st ! A self) (unwrap st other))"

subsection \<open>Linear algebra helpers\<close>

text \<open>
  \<^verbatim>\<open>
  def inv(self):
      return M(np.linalg.inv(self.A))

  def pinv(self):
      return M(np.linalg.pinv(self.A))

  def det(self):
      return np.linalg.det(self.A)

  def rank(self):
      return np.linalg.matrix_rank(self.A)

  def eig(self):
      w, v = np.linalg.eig(self.A)
      return M(w), M(v)
  \<close>
\<close>

definition M_inv :: "'f numlib \<Rightarrow> 'f store \<Rightarrow> M \<Rightarrow> (pyerr + M) \<times> 'f store" where
  "M_inv L st self = M_of_result L st (linalg_inv L (st ! A self))"

definition M_pinv :: "'f numlib \<Rightarrow> 'f store \<Rightarrow> M \<Rightarrow> (pyerr + M) \<times> 'f store" where
  "M_pinv L st self = M_of_result L st (linalg_pinv L (st ! A self))"

definition M_det :: "'f numlib \<Rightarrow> 'f store \<Rightarrow> M \<Rightarrow> (pyerr + 'f item) \<times> 'f store" where
  "M_det L st self = (linalg_det L (st ! A self), st)"

definition M_rank :: "'f numlib \<Rightarrow> 'f store \<Rightarrow> M \<Rightarrow> (pyerr + int item) \<times> 'f store" where
  "M_rank L st self = (linalg_matrix_rank L (st ! A self), st)"

definition M_eig :: "'f numlib \<Rightarrow> 'f store \<Rightarrow> M \<Rightarrow> (pyerr + M \<times> M) \<times> 'f store" where
  "M_eig L st self =
     (case linalg_eig L (st ! A self) of
        Inl e \<Rightarrow> (Inl e, st)
      | Inr (w, v) \<Rightarrow>
          (case M_init L st (DArr w) of
             (Inl e, st1) \<Rightarrow> (Inl e, st1)
           | (Inr mw, st1) \<Rightarrow>
               (case M_init L st1 (DArr v) of
                  (Inl e, st2) \<Rightarrow> (Inl e, st2)
                | (Inr mv, st2) \<Rightarrow> (Inr (mw, mv), st2))))"

subsection \<open>Concatenation\<close>

text \<open>
  \<^verbatim>\<open>
  @staticmethod
  def hcat(*args):
      return M(np.hstack([_unwrap(a) for a in args]))

  @staticmethod
  def vcat(*args):
      return M(np.vstack([_unwrap(a) for a in args]))
  \<close>
\<close>

definition M_hcat :: "'f numlib \<Rightarrow> 'f store \<Rightarrow> 'f operand list \<Rightarrow> (pyerr + M) \<times> 'f store" where
  "M_hcat L st args = M_of_result L st (np_hstack (map (unwrap st) args))"

definition M_vcat :: "'f numlib \<Rightarrow> 'f store \<Rightarrow> 'f operand list \<Rightarrow> (pyerr + M) \<times> 'f store" where
  "M_vcat L st args = M_of_result L st (np_vstack (map (unwrap st) args))"

section \<open>The matrix literal\<close>

subsection \<open>Python strings\<close>

text \<open>
  A string is the list of its characters, each a code point below 256. \<open>str.strip()\<close>
  and \<open>str.split()\<close> treat as whitespace the characters for which \<open>str.isspace\<close>
  holds: tab, line feed, vertical tab, form feed, carriage return, the separators
  \<open>0x1c\<close> to \<open>0x1f\<close>, the space, \<open>0x85\<close> and the no-break space \<open>0xa0\<close>.
\<close>

definition isspace :: "char \<Rightarrow> bool" where
  "isspace c = (c \<in> set [CHR 0x09, CHR 0x0A, CHR 0x0B, CHR 0x0C, CHR 0x0D, CHR 0x1C, CHR 0x1D,
                           CHR 0x1E, CHR 0x1F, CHR '' '', CHR 0x85, CHR 0xA0])"

definition strip :: "string \<Rightarrow> string" where
  "strip s = rev (dropWhile isspace (rev (dropWhile isspace s)))"

text \<open>\<open>s.replace(old, new)\<close> for one-character strings \<open>old\<close> and \<open>new\<close>.\<close>

definition replace :: "char \<Rightarrow> char \<Rightarrow> string \<Rightarrow> string" where
  "replace old new s = map (\<lambda>c. if c = old then new else c) s"

text \<open>
  Cutting a string at every character that satisfies \<open>P\<close>: \<open>n\<close> such characters give
  \<open>n + 1\<close> pieces, some of them possibly empty. \<open>s.split(sep)\<close> for a one-character
  \<open>sep\<close> cuts at the characters equal to \<open>sep\<close>.
\<close>

fun split_at :: "(char \<Rightarrow> bool) \<Rightarrow> string \<Rightarrow> string list" where
  "split_at P [] = [[]]"
| "split_at P (c # cs) =
     (if P c then [] # split_at P cs
      else (case split_at P cs of [] \<Rightarrow> [[c]] | r # rs \<Rightarrow> (c # r) # rs))"

definition split_sep :: "char \<Rightarrow> string \<Rightarrow> string list" where
  "split_sep sep s = split_at (\<lambda>c. c = sep) s"

text \<open>
  \<open>s.split()\<close> without a separator: skip whitespace, take the run of characters up to
  the next whitespace as a word, and go on behind it; no word is empty.
\<close>

function split_ws :: "string \<Rightarrow> string list" where
  "split_ws [] = []"
| "split_ws (c # cs) =
     (if isspace c then split_ws cs
      else (c # takeWhile (\<lambda>x. \<not> isspace x) cs) # split_ws (dropWhile (\<lambda>x. \<not> isspace x) cs))"
  by pat_completeness auto
termination
  by (relation "measure length") (auto simp: less_Suc_eq_le length_dropWhile_le)

subsection \<open>\<open>mat\<close>\<close>

text \<open>
  \<^verbatim>\<open>
  def mat(expr: str) -> M:
      rows = expr.strip().replace("\n", ";").split(";")
      data = []
      for r in rows:
          r = r.strip()
          if not r:
              continue
          cols = [float(x) for x in r.replace(",", " ").split()]
          data.append(cols)
      return M(data)
  \<close>
  \<open>float(x)\<close> raises \<open>ValueError\<close> on a string it cannot read, and the loop stops there.
\<close>

definition py_float :: "'f numlib \<Rightarrow> string \<Rightarrow> pyerr + 'f" where
  "py_float L x = (case str_to_float L x of None \<Rightarrow> Inl ValueError | Some v \<Rightarrow> Inr v)"

fun mat_loop :: "'f numlib \<Rightarrow> string list \<Rightarrow> pyerr + 'f list list" where
  "mat_loop L [] = Inr []"
| "mat_loop L (r # rows) =
     (let r' = strip r in
      if r' = [] then mat_loop L rows
      else (case collect (map (py_float L) (split_ws (replace CHR '','' CHR '' '' r'))) of
              Inl e \<Rightarrow> Inl e
            | Inr cols \<Rightarrow>
                (case mat_loop L rows of Inl e \<Rightarrow> Inl e | Inr data \<Rightarrow> Inr (cols # data))))"

definition float_rows :: "'f list list \<Rightarrow> 'f pyobj" where
  "float_rows data = PList (map (\<lambda>cols. PList (map (\<lambda>x. PNum (PFloat x)) cols)) data)"

definition mat :: "'f numlib \<Rightarrow> 'f store \<Rightarrow> string \<Rightarrow> (pyerr + M) \<times> 'f store" where
  "mat L st expr =
     (case mat_loop L (split_sep CHR '';'' (replace CHR 0x0A CHR '';'' (strip expr))) of
        Inl e \<Rightarrow> (Inl e, st)
      | Inr data \<Rightarrow> M_init L st (DObj (float_rows data)))"

subsection \<open>The literal as the specification reads it\<close>

text \<open>
  The rows of a literal are its pieces between semicolons and newlines, leaving out
  the pieces with nothing but whitespace; the entries of a row are its non-empty pieces
  between whitespace and commas.
\<close>

definition lit_rows :: "string \<Rightarrow> string list" where
  "lit_rows expr =
     filter (\<lambda>r. \<not> list_all isspace r) (split_at (\<lambda>c. c = CHR '';'' \<or> c = CHR 0x0A) expr)"

definition lit_tokens :: "string \<Rightarrow> string list" where
  "lit_tokens r = filter (\<lambda>t. t \<noteq> []) (split_at (\<lambda>c. isspace c \<or> c = CHR '','') r)"

definition lit_grid :: "string \<Rightarrow> string list list" where
  "lit_grid expr = map lit_tokens (lit_rows expr)"

text \<open>
  The grid of tokens of a list of pieces, what \<open>float\<close> makes of a grid, and the two
  conditions on a grid: every token is read by \<open>float\<close>, and all rows are as long as
  the first.
\<close>

definition grid_of :: "string list \<Rightarrow> string list list" where
  "grid_of pieces = map lit_tokens (filter (\<lambda>r. \<not> list_all isspace r) pieces)"

definition parse_grid :: "'f numlib \<Rightarrow> string list list \<Rightarrow> pyerr + 'f list list" where
  "parse_grid L g = collect (map (\<lambda>row. collect (map (py_float L) row)) g)"

definition numeric :: "'f numlib \<Rightarrow> string list list \<Rightarrow> bool" where
  "numeric L g = (\<forall>row\<in>set g. \<forall>t\<in>set row. str_to_float L t \<noteq> None)"

definition rectangular :: "'a list list \<Rightarrow> bool" where
  "rectangular g = (\<forall>row\<in>set g. length row = length (hd g))"

definition grid_values :: "'f numlib \<Rightarrow> string list list \<Rightarrow> 'f list list" where
  "grid_values L g = map (map (\<lambda>t. the (str_to_float L t))) g"

subsection \<open>Rows and columns of a matrix\<close>

text \<open>The rows and the columns of a two-dimensional array, in order.\<close>

definition matrix_rows :: "'e ndarray \<Rightarrow> 'e list list" where
  "matrix_rows a = map (row_of a) [0..<shape a ! 0]"

definition matrix_cols :: "'e ndarray \<Rightarrow> 'e list list" where
  "matrix_cols a = map (col_of a) [0..<shape a ! 1]"

subsection \<open>An operation as a call-through\<close>

text \<open>
  What the specification says of an operation of the wrapper: it is the library
  routine applied to the unwrapped arrays. The matrix returned is a new object holding
  exactly the array the routine returned, and an exception of the routine is the
  exception of the operation.
\<close>

definition call_through :: "'f store \<Rightarrow> pyerr + 'f ndarray \<Rightarrow> (pyerr + M) \<times> 'f store" where
  "call_through st r =
     (case r of Inl e \<Rightarrow> (Inl e, st) | Inr a \<Rightarrow> (Inr \<lparr>A = length st\<rparr>, st @ [a]))"

subsection \<open>An operation that adds no failure handling\<close>

text \<open>
  The outcome \<open>res\<close> of an operation started in the store \<open>st\<close> propagates the outcome
  \<open>lib\<close> of the library routine when the operation raises an exception exactly when
  the routine raised it, a failed operation leaves the store as it was, and in any
  case every array that was in the store is as before.
\<close>

definition propagates :: "(pyerr + 'r) \<times> 'f store \<Rightarrow> pyerr + 'x \<Rightarrow> 'f store \<Rightarrow> bool" where
  "propagates res lib st =
     ((\<forall>e. fst res = Inl e \<longleftrightarrow> lib = Inl e)
      \<and> (\<forall>e. fst res = Inl e \<longrightarrow> snd res = st)
      \<and> (\<forall>r. r < length st \<longrightarrow> snd res ! r = st ! r))"

subsection \<open>A library to run examples with\<close>

text \<open>
  For evaluating the model on concrete inputs: floats are read as the reals they
  denote (the examples use small integers, which binary64 represents exactly),
  \<open>float\<close> reads strings of decimal digits, and the inverse, the determinant and the
  rank are those of two-by-two matrices.
\<close>

definition digit_val :: "char \<Rightarrow> nat option" where
  "digit_val c =
     map_of [(CHR ''0'', 0), (CHR ''1'', 1), (CHR ''2'', 2), (CHR ''3'', 3), (CHR ''4'', 4),
             (CHR ''5'', 5), (CHR ''6'', 6), (CHR ''7'', 7), (CHR ''8'', 8), (CHR ''9'', 9)] c"

fun digits_val :: "nat \<Rightarrow> string \<Rightarrow> nat option" where
  "digits_val acc [] = Some acc"
| "digits_val acc (c # cs) =
     (case digit_val c of None \<Rightarrow> None | Some d \<Rightarrow> digits_val (10 * acc + d) cs)"

definition float_of_digits :: "string \<Rightarrow> real option" where
  "float_of_digits s = (if s = [] then None else map_option real (digits_val 0 s))"

definition inv_2x2 :: "real ndarray \<Rightarrow> pyerr + real ndarray" where
  "inv_2x2 a =
     (case (shape a, elems a) of
        ([Suc (Suc 0), Suc (Suc 0)], [p, q, r, s]) \<Rightarrow>
          if p * s - q * r = 0 then Inl LinAlgError
          else Inr \<lparr>shape = [2, 2],
                    elems = [s / (p * s - q * r), - q / (p * s - q * r),
                             - r / (p * s - q * r), p / (p * s - q * r)]\<rparr>
      | _ \<Rightarrow> Inl LinAlgError)"

definition det_2x2 :: "real ndarray \<Rightarrow> pyerr + real item" where
  "det_2x2 a =
     (case (shape a, elems a) of
        ([Suc (Suc 0), Suc (Suc 0)], [p, q, r, s]) \<Rightarrow> Inr (Scalar (p * s - q * r))
      | _ \<Rightarrow> Inl LinAlgError)"

definition rank_2x2 :: "real ndarray \<Rightarrow> pyerr + int item" where
  "rank_2x2 a =
     (case (shape a, elems a) of
        ([Suc (Suc 0), Suc (Suc 0)], [p, q, r, s]) \<Rightarrow>
          Inr (Scalar (if p * s - q * r \<noteq> 0 then 2
                       else if p = 0 \<and> q = 0 \<and> r = 0 \<and> s = 0 then 0 else 1))
      | _ \<Rightarrow> Inl LinAlgError)"

text \<open>
  The instance: exact arithmetic on the reals, and the routines above for two-by-two
  matrices. It stands for NumPy on the inputs of the examples only: it raises for
  matrices of other sizes, for the matrix power, for the eigen-decomposition (no
  example runs it through this instance) and for the matrix product of arrays that are
  not two-dimensional, its power of floats is the power with the exponent rounded down,
  and its pseudo-inverse is the inverse.
\<close>

definition exact_lib :: "real numlib" where
  "exact_lib =
     \<lparr>str_to_float = float_of_digits,
      int_to_float = (\<lambda>i. Some (real_of_int i)),
      f_add = (+), f_sub = (-), f_mul = (*), f_div = (/), f_pow = (\<lambda>x y. x ^ nat \<lfloor>y\<rfloor>),
      f_neg = uminus,
      vdot = (\<lambda>xs ys. sum_list (map2 (*) xs ys)),
      matmul_other = (\<lambda>a b. Inl ValueError),
      linalg_inv = inv_2x2,
      linalg_pinv = inv_2x2,
      linalg_det = det_2x2,
      linalg_matrix_rank = rank_2x2,
      linalg_eig = (\<lambda>a. Inl LinAlgError),
      linalg_matrix_power = (\<lambda>a p. Inl LinAlgError)\<rparr>"

section \<open>One-based call indexing\<close>

lemma select_axes_two_ints:
  "0 \<le> i \<Longrightarrow> i < int r \<Longrightarrow> 0 \<le> j \<Longrightarrow> j < int c \<Longrightarrow>
   select_axes [r, c] [IInt i, IInt j] = Inr [Pick (nat i), Pick (nat j)]"
  by (simp add: int_index_def)

lemma offset_in_range:
  fixes i j r c :: nat
  assumes "i < r" "j < c"
  shows "i * c + j < r * c"
proof -
  have "i * c + j < i * c + c" using assms by simp
  also have "\<dots> = Suc i * c" by simp
  also have "\<dots> \<le> r * c" using assms by (intro mult_le_mono1) simp
  finally show ?thesis .
qed

text \<open>
  Python ints. For a two-dimensional array of shape \<open>(r, c)\<close> and Python ints
  \<open>1 \<le> i \<le> r\<close>, \<open>1 \<le> j \<le> c\<close>, the call \<open>A(i, j)\<close> returns the element stored at the
  zero-based position \<open>(i-1, j-1)\<close>, which in row-major storage is offset
  \<open>(i-1) * c + (j-1)\<close>, an offset inside the buffer; \<open>A(1, 1)\<close> is the first element of
  the buffer.
\<close>

theorem call_is_one_based:
  assumes "wf_array (st ! A m)" and "shape (st ! A m) = [r, c]"
    and "1 \<le> i" and "i \<le> int r" and "1 \<le> j" and "j \<le> int c"
  shows "M_call st m [IInt i, IInt j]
           = Inr (Scalar (elems (st ! A m) ! (nat (i - 1) * c + nat (j - 1))))
         \<and> nat (i - 1) * c + nat (j - 1) < length (elems (st ! A m))
         \<and> M_call st m [IInt 1, IInt 1] = Inr (Scalar (hd (elems (st ! A m))))"
proof -
  let ?a = "st ! A m"
  have sel: "select_axes [r, c] [IInt (i - 1), IInt (j - 1)]
               = Inr [Pick (nat (i - 1)), Pick (nat (j - 1))]"
    using assms by (intro select_axes_two_ints) simp_all
  have call: "M_call st m [IInt i, IInt j]
                = Inr (Scalar (elems ?a ! (nat (i - 1) * c + nat (j - 1))))"
    using assms(2) sel by (simp add: M_call_def np_getitem_def)
  have "nat (i - 1) < r" and "nat (j - 1) < c" using assms by simp_all
  then have "nat (i - 1) * c + nat (j - 1) < r * c" by (rule offset_in_range)
  then have inside: "nat (i - 1) * c + nat (j - 1) < length (elems ?a)"
    using assms(1,2) by (simp add: wf_array_def)
  have pos: "0 < r" "0 < c" using assms by simp_all
  then have sel1: "select_axes [r, c] [IInt 0, IInt 0] = Inr [Pick 0, Pick 0]"
    using select_axes_two_ints [of 0 r 0 c] by simp
  from pos assms(1,2) have "elems ?a \<noteq> []" by (auto simp: wf_array_def)
  then have "elems ?a ! 0 = hd (elems ?a)" by (simp add: hd_conv_nth)
  then have first: "M_call st m [IInt 1, IInt 1] = Inr (Scalar (hd (elems ?a)))"
    using assms(2) sel1 by (simp add: M_call_def np_getitem_def)
  from call inside first show ?thesis by simp
qed

theorem call_is_one_based_witness:
  "wf_array ([\<lparr>shape = [2, 3], elems = [10, 20, 30, 40, 50, 60 :: int]\<rparr>] ! A \<lparr>A = 0\<rparr>)
   \<and> shape ([\<lparr>shape = [2, 3], elems = [10, 20, 30, 40, 50, 60 :: int]\<rparr>] ! A \<lparr>A = 0\<rparr>) = [2, 3]
   \<and> (1::int) \<le> 2 \<and> (2::int) \<le> int 2 \<and> (1::int) \<le> 3 \<and> (3::int) \<le> int 3
   \<and> M_call [\<lparr>shape = [2, 3], elems = [10, 20, 30, 40, 50, 60 :: int]\<rparr>] \<lparr>A = 0\<rparr> [IInt 2, IInt 3]
       = Inr (Scalar 60)
   \<and> M_call [\<lparr>shape = [2, 3], elems = [10, 20, 30, 40, 50, 60 :: int]\<rparr>] \<lparr>A = 0\<rparr> [IInt 1, IInt 1]
       = Inr (Scalar 10)"
  using call_is_one_based [of "[\<lparr>shape = [2, 3], elems = [10, 20, 30, 40, 50, 60 :: int]\<rparr>]"
      "\<lparr>A = 0\<rparr>" 2 3 2 3]
  by (simp add: wf_array_def)

text \<open>
  C3. The docstring of \<open>__call__\<close> promises one-based indexing, and for Python ints
  the call is one-based (above). For integer indices that are NumPy integers it is
  not: \<open>isinstance(i, int)\<close> is false for them, so \<open>__call__\<close> hands them to the array as
  they are and \<open>A(i, j)\<close> is \<open>A[i, j]\<close>. With \<open>A = M([[10, 20, 30], [40, 50, 60]])\<close> the
  call \<open>A(np.int64(1), np.int64(1))\<close> returns \<open>50\<close>, the element at the zero-based position
  \<open>(1, 1)\<close>, where \<open>A(1, 1)\<close> returns the first element \<open>10\<close>; and
  \<open>A(np.int64(2), np.int64(3))\<close> raises \<open>IndexError\<close>, where \<open>A(2, 3)\<close> returns \<open>60\<close>.
\<close>

theorem call_is_zero_based_for_numpy_integers:
  "M_call st m [INp i, INp j] = M_getitem st m (KTuple [INp i, INp j])
   \<and> M_call [\<lparr>shape = [2, 3], elems = [10, 20, 30, 40, 50, 60 :: int]\<rparr>] \<lparr>A = 0\<rparr> [INp 1, INp 1]
       = Inr (Scalar 50)
   \<and> M_call [\<lparr>shape = [2, 3], elems = [10, 20, 30, 40, 50, 60 :: int]\<rparr>] \<lparr>A = 0\<rparr> [IInt 1, IInt 1]
       = Inr (Scalar 10)
   \<and> M_call [\<lparr>shape = [2, 3], elems = [10, 20, 30, 40, 50, 60 :: int]\<rparr>] \<lparr>A = 0\<rparr> [INp 2, INp 3]
       = Inl IndexError
   \<and> M_call [\<lparr>shape = [2, 3], elems = [10, 20, 30, 40, 50, 60 :: int]\<rparr>] \<lparr>A = 0\<rparr> [IInt 2, IInt 3]
       = Inr (Scalar 60)"
  by (simp add: M_call_def M_getitem_def np_getitem_def int_index_def)

section \<open>Call indexing against bracket indexing\<close>

lemma shift_slices:
  "map shift_idx (map (\<lambda>(a, b, c). ISlice a b c) ss) = map (\<lambda>(a, b, c). ISlice a b c) ss"
  by (induction ss) auto

text \<open>
  C9. Call indexing shifts Python ints only, bracket indexing shifts nothing: for all
  integers \<open>i\<close>, \<open>j\<close> (in range or not) \<open>A[i-1, j-1]\<close> is \<open>A(i, j)\<close>; a slice passed to
  \<open>A(...)\<close> gives what the same slice gives in \<open>A[...]\<close>, alone or in a tuple of slices;
  and a NumPy integer, which is not a Python int, is not shifted either.
\<close>

theorem call_shifts_python_ints_only:
  "M_getitem st m (KTuple [IInt (i - 1), IInt (j - 1)]) = M_call st m [IInt i, IInt j]
   \<and> M_call st m [ISlice a b c] = M_getitem st m (KOne (ISlice a b c))
   \<and> M_call st m (map (\<lambda>(a, b, c). ISlice a b c) ss)
       = M_getitem st m (KTuple (map (\<lambda>(a, b, c). ISlice a b c) ss))
   \<and> M_call st m [INp i, ISlice a b c] = M_getitem st m (KTuple [INp i, ISlice a b c])"
  unfolding M_call_def M_getitem_def shift_slices
  by (simp add: np_getitem_def)

section \<open>Copies are independent\<close>

lemma M_init_copy:
  "M_init L st (DM b) = (Inr \<lparr>A = length st\<rparr>, st @ [st ! A b])"
  by (simp add: alloc_def np_copy_def)

lemma M_setitem_frame:
  "r \<noteq> A self \<Longrightarrow> snd (M_setitem L st self k v) ! r = st ! r"
  by (simp add: M_setitem_def split: sum.split)

text \<open>
  C8. \<open>M(B)\<close> for an \<open>M\<close> object \<open>B\<close> (whose array is in the store) returns a new object
  whose array is another object of the store with the contents of \<open>B\<close>'s array, and
  leaves \<open>B\<close>'s array as it was. From then on an assignment through \<open>__setitem__\<close> to the
  new matrix, with any key and value, leaves \<open>B\<close>'s array unchanged, and an assignment
  to \<open>B\<close> leaves the new matrix's array unchanged.
\<close>

theorem M_of_M_is_independent_copy:
  assumes "A b < length st"
  shows "\<exists>n st1. M_init L st (DM b) = (Inr n, st1)
           \<and> A n \<noteq> A b \<and> A n < length st1
           \<and> st1 ! A n = st ! A b \<and> st1 ! A b = st ! A b
           \<and> (\<forall>k v. snd (M_setitem L st1 n k v) ! A b = st1 ! A b)
           \<and> (\<forall>k v. snd (M_setitem L st1 b k v) ! A n = st1 ! A n)"
proof -
  let ?n = "\<lparr>A = length st\<rparr>"
  let ?st1 = "st @ [st ! A b]"
  have differ: "A ?n \<noteq> A b" using assms by simp
  have "M_init L st (DM b) = (Inr ?n, ?st1)" by (rule M_init_copy)
  moreover have "A ?n < length ?st1" by simp
  moreover have "?st1 ! A ?n = st ! A b" by simp
  moreover have "?st1 ! A b = st ! A b" using assms by (simp add: nth_append)
  moreover have "\<forall>k v. snd (M_setitem L ?st1 ?n k v) ! A b = ?st1 ! A b"
    using differ by (intro allI M_setitem_frame) simp
  moreover have "\<forall>k v. snd (M_setitem L ?st1 b k v) ! A ?n = ?st1 ! A ?n"
    using differ by (intro allI M_setitem_frame)
  ultimately show ?thesis using differ by blast
qed

theorem M_of_M_is_independent_copy_witness:
  "A \<lparr>A = 0\<rparr> < length [\<lparr>shape = [2, 2], elems = [1, 2, 3, 4 :: real]\<rparr>]
   \<and> M_init exact_lib [\<lparr>shape = [2, 2], elems = [1, 2, 3, 4]\<rparr>] (DM \<lparr>A = 0\<rparr>)
       = (Inr \<lparr>A = 1\<rparr>, [\<lparr>shape = [2, 2], elems = [1, 2, 3, 4]\<rparr>,
                          \<lparr>shape = [2, 2], elems = [1, 2, 3, 4]\<rparr>])
   \<and> M_setitem exact_lib [\<lparr>shape = [2, 2], elems = [1, 2, 3, 4]\<rparr>,
                           \<lparr>shape = [2, 2], elems = [1, 2, 3, 4]\<rparr>]
         \<lparr>A = 1\<rparr> (KTuple [IInt 0, IInt 1]) (PFloat 9)
       = (Inr (), [\<lparr>shape = [2, 2], elems = [1, 2, 3, 4]\<rparr>,
                   \<lparr>shape = [2, 2], elems = [1, 9, 3, 4]\<rparr>])
   \<and> M_setitem exact_lib [\<lparr>shape = [2, 2], elems = [1, 2, 3, 4]\<rparr>,
                           \<lparr>shape = [2, 2], elems = [1, 2, 3, 4]\<rparr>]
         \<lparr>A = 0\<rparr> (KTuple [IInt 0, IInt 1]) (PFloat 9)
       = (Inr (), [\<lparr>shape = [2, 2], elems = [1, 9, 3, 4]\<rparr>,
                   \<lparr>shape = [2, 2], elems = [1, 2, 3, 4]\<rparr>])"
  using M_of_M_is_independent_copy [of "\<lparr>A = 0\<rparr>" "[\<lparr>shape = [2, 2], elems = [1, 2, 3, 4 :: real]\<rparr>]"
      exact_lib]
  by (simp add: alloc_def np_copy_def M_setitem_def np_setitem_def int_index_def)

section \<open>The matrix literal: the code against the specification's reading\<close>

lemma split_at_nonempty: "split_at P s \<noteq> []"
  by (induction s) (auto split: list.split)

lemma split_at_unfold:
  "split_at P cs = takeWhile (\<lambda>x. \<not> P x) cs
     # (case dropWhile (\<lambda>x. \<not> P x) cs of [] \<Rightarrow> [] | x # xs \<Rightarrow> split_at P xs)"
  by (induction cs) (auto split: list.split)

lemma filter_split_at_tail:
  assumes "ds = [] \<or> P (hd ds)"
  shows "filter (\<lambda>t. t \<noteq> []) (split_at P ds)
         = filter (\<lambda>t. t \<noteq> []) (case ds of [] \<Rightarrow> [] | x # xs \<Rightarrow> split_at P xs)"
  using assms by (cases ds) auto

lemma dropWhile_not_head:
  "dropWhile (\<lambda>x. \<not> P x) cs = [] \<or> P (hd (dropWhile (\<lambda>x. \<not> P x) cs))"
  using hd_dropWhile [of "\<lambda>x. \<not> P x" cs] by blast

lemma split_ws_filter: "split_ws s = filter (\<lambda>t. t \<noteq> []) (split_at isspace s)"
proof (induction s rule: split_ws.induct)
  case 1
  show ?case by simp
next
  case (2 c cs)
  show ?case
  proof (cases "isspace c")
    case True
    with 2 show ?thesis by simp
  next
    case False
    let ?ds = "dropWhile (\<lambda>x. \<not> isspace x) cs"
    have "split_at isspace (c # cs) = (c # takeWhile (\<lambda>x. \<not> isspace x) cs)
       # (case ?ds of [] \<Rightarrow> [] | x # xs \<Rightarrow> split_at isspace xs)"
      using False by (subst split_at_unfold) simp
    moreover have "filter (\<lambda>t. t \<noteq> []) (split_at isspace ?ds)
      = filter (\<lambda>t. t \<noteq> []) (case ?ds of [] \<Rightarrow> [] | x # xs \<Rightarrow> split_at isspace xs)"
      by (rule filter_split_at_tail) (rule dropWhile_not_head)
    moreover have "split_ws (c # cs) = (c # takeWhile (\<lambda>x. \<not> isspace x) cs) # split_ws ?ds"
      using False by simp
    ultimately show ?thesis using 2(2) [OF False]
      by (simp only: filter.simps list.simps if_False if_True not_False_eq_True)
  qed
qed

lemma isspace_space: "isspace CHR '' ''" and not_isspace_comma: "\<not> isspace CHR '',''"
  and isspace_newline: "isspace CHR 0x0A" and not_isspace_semicolon: "\<not> isspace CHR '';''"
  by (simp_all add: isspace_def)

lemma split_at_replace_comma:
  "split_at isspace (replace CHR '','' CHR '' '' s) = split_at (\<lambda>c. isspace c \<or> c = CHR '','') s"
  by (induction s) (auto simp: replace_def isspace_space split: list.split)

lemma split_sep_replace_newline:
  "split_sep CHR '';'' (replace CHR 0x0A CHR '';'' s) = split_at (\<lambda>c. c = CHR '';'' \<or> c = CHR 0x0A) s"
  by (induction s) (auto simp: replace_def split_sep_def split: list.split)

lemma split_at_append:
  "split_at P (xs @ ys) =
     butlast (split_at P xs) @ [last (split_at P xs) @ hd (split_at P ys)] @ tl (split_at P ys)"
proof (induction xs)
  case Nil
  show ?case using split_at_nonempty [of P ys] by simp
next
  case (Cons c xs)
  show ?case
  proof (cases "P c")
    case True
    then show ?thesis using Cons split_at_nonempty [of P xs] by simp
  next
    case False
    obtain r rs where X: "split_at P xs = r # rs"
      using split_at_nonempty [of P xs] by (cases "split_at P xs") auto
    show ?thesis using False Cons X by (cases rs) auto
  qed
qed


lemma lit_grid_grid_of:
  "lit_grid expr = grid_of (split_at (\<lambda>c. c = CHR '';'' \<or> c = CHR 0x0A) expr)"
  by (simp add: lit_grid_def lit_rows_def grid_of_def)

lemma strip_empty_iff: "strip r = [] \<longleftrightarrow> list_all isspace r"
proof -
  let ?u = "dropWhile isspace r"
  have a: "strip r = [] \<longleftrightarrow> (\<forall>x\<in>set ?u. isspace x)"
    by (simp add: strip_def dropWhile_eq_Nil_conv)
  have b: "(\<forall>x\<in>set ?u. isspace x) \<longleftrightarrow> ?u = []"
  proof
    assume all: "\<forall>x\<in>set ?u. isspace x"
    show "?u = []"
    proof (rule ccontr)
      assume ne: "?u \<noteq> []"
      then have "\<not> isspace (hd ?u)" by (rule hd_dropWhile)
      moreover have "hd ?u \<in> set ?u" using ne by (rule hd_in_set)
      ultimately show False using all by blast
    qed
  next
    assume "?u = []"
    then show "\<forall>x\<in>set ?u. isspace x" by (simp only: set_empty2 list.set ball_empty)
  qed
  have c: "?u = [] \<longleftrightarrow> list_all isspace r"
    by (simp add: dropWhile_eq_Nil_conv list_all_iff)
  from a b c show ?thesis by blast
qed

lemma lit_tokens_lead: "isspace c \<Longrightarrow> lit_tokens (c # s) = lit_tokens s"
  by (simp add: lit_tokens_def)

lemma lit_tokens_dropWhile: "lit_tokens (dropWhile isspace s) = lit_tokens s"
  by (induction s) (simp_all add: lit_tokens_lead)

lemma split_at_all_sep: "list_all P ws \<Longrightarrow> split_at P ws = replicate (Suc (length ws)) []"
  by (induction ws) simp_all

lemma butlast_last_id: "xs \<noteq> [] \<Longrightarrow> butlast xs @ [last xs] = xs"
  by simp

lemma lit_tokens_trail:
  assumes "list_all isspace ws"
  shows "lit_tokens (s @ ws) = lit_tokens s"
proof -
  let ?P = "\<lambda>c. isspace c \<or> c = CHR '',''"
  have "list_all ?P ws" using assms by (simp add: list_all_iff)
  then have W: "split_at ?P ws = replicate (Suc (length ws)) []" by (rule split_at_all_sep)
  have "split_at ?P (s @ ws) = butlast (split_at ?P s) @ [last (split_at ?P s)] @ replicate (length ws) []"
    by (subst split_at_append) (simp add: W)
  also have "\<dots> = split_at ?P s @ replicate (length ws) []"
    using split_at_nonempty [of ?P s] by simp
  finally show ?thesis by (simp add: lit_tokens_def)
qed

lemma strip_decomp: "\<exists>ws. list_all isspace ws \<and> dropWhile isspace s = strip s @ ws"
proof -
  let ?u = "dropWhile isspace s"
  have "rev (dropWhile isspace (rev ?u)) @ rev (takeWhile isspace (rev ?u))
          = rev (takeWhile isspace (rev ?u) @ dropWhile isspace (rev ?u))"
    by (simp only: rev_append)
  also have "\<dots> = ?u" by (simp only: takeWhile_dropWhile_id rev_rev_ident)
  finally have "?u = strip s @ rev (takeWhile isspace (rev ?u))"
    by (simp only: strip_def)
  moreover have "list_all isspace (rev (takeWhile isspace (rev ?u)))"
    by (auto simp: list_all_iff dest: set_takeWhileD)
  ultimately show ?thesis by blast
qed

lemma lit_tokens_strip: "lit_tokens (strip s) = lit_tokens s"
proof -
  obtain ws where "list_all isspace ws" and "dropWhile isspace s = strip s @ ws"
    using strip_decomp by blast
  then have "lit_tokens (dropWhile isspace s) = lit_tokens (strip s)"
    by (simp add: lit_tokens_trail)
  then show ?thesis by (simp add: lit_tokens_dropWhile)
qed

lemma row_tokens: "split_ws (replace CHR '','' CHR '' '' (strip r)) = lit_tokens r"
proof -
  have "split_ws (replace CHR '','' CHR '' '' (strip r)) = lit_tokens (strip r)"
    by (simp add: split_ws_filter split_at_replace_comma lit_tokens_def)
  then show ?thesis by (simp add: lit_tokens_strip)
qed

lemma grid_of_lead:
  assumes "isspace c"
  shows "grid_of (split_at P (c # s)) = grid_of (split_at P s)"
proof (cases "P c")
  case True
  then show ?thesis by (simp add: grid_of_def)
next
  case False
  obtain r rs where "split_at P s = r # rs"
    using split_at_nonempty [of P s] by (cases "split_at P s") auto
  with False assms show ?thesis by (simp add: grid_of_def lit_tokens_lead)
qed

lemma grid_of_dropWhile: "grid_of (split_at P (dropWhile isspace s)) = grid_of (split_at P s)"
  by (induction s) (simp_all add: grid_of_lead del: split_at.simps)

lemma grid_of_snoc:
  assumes "isspace c"
  shows "grid_of (split_at P (s @ [c])) = grid_of (split_at P s)"
proof -
  let ?X = "split_at P s"
  have X: "?X = butlast ?X @ [last ?X]" using split_at_nonempty [of P s] by simp
  have tok: "lit_tokens (last ?X @ [c]) = lit_tokens (last ?X)"
    using assms by (simp add: lit_tokens_trail)
  show ?thesis
  proof (cases "P c")
    case True
    then have "split_at P (s @ [c]) = butlast ?X @ [last ?X] @ [[]]"
      by (subst split_at_append) simp
    then have "grid_of (split_at P (s @ [c])) = grid_of (butlast ?X @ [last ?X])"
      by (simp add: grid_of_def)
    with X show ?thesis by simp
  next
    case False
    then have "split_at P (s @ [c]) = butlast ?X @ [last ?X @ [c]]"
      by (subst split_at_append) simp
    then have "grid_of (split_at P (s @ [c])) = grid_of (butlast ?X @ [last ?X])"
      using assms tok by (simp add: grid_of_def)
    with X show ?thesis by simp
  qed
qed

lemma grid_of_trail:
  "list_all isspace ws \<Longrightarrow> grid_of (split_at P (s @ ws)) = grid_of (split_at P s)"
proof (induction ws rule: rev_induct)
  case Nil
  show ?case by simp
next
  case (snoc c ws)
  then have "isspace c" and "list_all isspace ws" by simp_all
  have "grid_of (split_at P ((s @ ws) @ [c])) = grid_of (split_at P (s @ ws))"
    using \<open>isspace c\<close> by (rule grid_of_snoc)
  with snoc.IH [OF \<open>list_all isspace ws\<close>] show ?case by simp
qed

lemma grid_of_strip: "grid_of (split_at P (strip s)) = grid_of (split_at P s)"
proof -
  obtain ws where "list_all isspace ws" and "dropWhile isspace s = strip s @ ws"
    using strip_decomp by blast
  then have "grid_of (split_at P (dropWhile isspace s)) = grid_of (split_at P (strip s))"
    by (simp add: grid_of_trail)
  then show ?thesis by (simp add: grid_of_dropWhile)
qed

lemma mat_loop_grid: "mat_loop L pieces = parse_grid L (grid_of pieces)"
proof (induction pieces)
  case Nil
  show ?case by (simp add: parse_grid_def grid_of_def)
next
  case (Cons r pieces)
  show ?case
  proof (cases "list_all isspace r")
    case True
    then have "strip r = []" by (simp add: strip_empty_iff)
    with True Cons show ?thesis by (simp add: parse_grid_def grid_of_def)
  next
    case False
    then have "strip r \<noteq> []" by (simp add: strip_empty_iff)
    with False Cons show ?thesis
      by (simp add: parse_grid_def grid_of_def row_tokens split: sum.split)
  qed
qed

lemma mat_via_grid:
  "mat L st expr =
     (case parse_grid L (lit_grid expr) of
        Inl e \<Rightarrow> (Inl e, st)
      | Inr data \<Rightarrow> M_init L st (DObj (float_rows data)))"
  by (simp add: mat_def mat_loop_grid split_sep_replace_newline grid_of_strip lit_grid_grid_of)


lemma collect_py_float:
  "collect (map (py_float L) row) =
     (if \<forall>t\<in>set row. str_to_float L t \<noteq> None then Inr (map (\<lambda>t. the (str_to_float L t)) row)
      else Inl ValueError)"
  by (induction row) (auto simp: py_float_def split: option.split)

lemma parse_grid_eq:
  "parse_grid L g =
     (if \<forall>row\<in>set g. \<forall>t\<in>set row. str_to_float L t \<noteq> None
      then Inr (map (map (\<lambda>t. the (str_to_float L t))) g)
      else Inl ValueError)"
  unfolding parse_grid_def
  by (induction g) (auto simp: collect_py_float)

lemma same_shapes_scalars: "same_shapes (map (\<lambda>x. Some []) cols) = Some [length cols]"
  by (cases cols) (simp_all add: list_all_iff)

lemma same_shapes_rows:
  "same_shapes (map (\<lambda>cols. Some [length (cols :: 'a list)]) data) =
     (case data of
        [] \<Rightarrow> Some [0]
      | r # rs \<Rightarrow> if list_all (\<lambda>x. length x = length r) rs then Some [length data, length r]
                  else None)"
  by (cases data) (simp_all add: list_all_iff)

lemma obj_shape_float_rows:
  "obj_shape (float_rows data) =
     (case data of
        [] \<Rightarrow> Some [0]
      | r # rs \<Rightarrow> if list_all (\<lambda>x. length x = length r) rs then Some [length data, length r]
                  else None)"
proof -
  have row: "obj_shape (PList (map (\<lambda>x. PNum (PFloat x)) cols)) = Some [length cols]"
    for cols :: "'a list"
    using same_shapes_scalars [of cols] by (simp add: comp_def)
  have "obj_shape (float_rows data)
          = same_shapes (map (\<lambda>cols. obj_shape (PList (map (\<lambda>x. PNum (PFloat x)) cols))) data)"
    by (simp add: float_rows_def comp_def)
  also have "\<dots> = same_shapes (map (\<lambda>cols. Some [length cols]) data)"
    by (simp only: row)
  finally show ?thesis by (simp only: same_shapes_rows)
qed

lemma collect_Inr: "collect (map Inr xs) = Inr xs"
  by (induction xs) simp_all

lemma leaves_float_rows:
  "map (to_float L) (obj_leaves (float_rows data)) = map Inr (concat data)"
  by (induction data) (simp_all add: float_rows_def comp_def)

lemma collect_leaves_float_rows:
  "collect (map (to_float L) (obj_leaves (float_rows data))) = Inr (concat data)"
  by (simp only: leaves_float_rows collect_Inr)

lemma array_of_float_rows:
  "array_of_obj L (float_rows data) =
     (case data of
        [] \<Rightarrow> Inr \<lparr>shape = [0], elems = []\<rparr>
      | r # rs \<Rightarrow> if list_all (\<lambda>x. length x = length r) rs
                  then Inr \<lparr>shape = [length data, length r], elems = concat data\<rparr>
                  else Inl ValueError)"
  unfolding array_of_obj_def obj_shape_float_rows collect_leaves_float_rows
  by (simp split: list.split)

lemma concat_nth_rect:
  "\<forall>r\<in>set data. length r = c \<Longrightarrow> i < length data \<Longrightarrow> j < c \<Longrightarrow>
   concat data ! (i * c + j) = data ! i ! j"
proof (induction data arbitrary: i)
  case Nil
  then show ?case by simp
next
  case (Cons r data)
  show ?case
  proof (cases i)
    case 0
    with Cons.prems show ?thesis by (simp add: nth_append)
  next
    case (Suc k)
    with Cons.prems have "concat data ! (k * c + j) = data ! k ! j"
      by (intro Cons.IH) simp_all
    moreover have "length r = c" using Cons.prems by simp
    ultimately show ?thesis using Suc by (simp add: nth_append)
  qed
qed

lemma mat_cases:
  "mat L st expr =
     (if \<not> numeric L (lit_grid expr) \<or> \<not> rectangular (lit_grid expr) then (Inl ValueError, st)
      else (Inr \<lparr>A = length st\<rparr>,
            st @ [if lit_grid expr = [] then \<lparr>shape = [0], elems = []\<rparr>
                  else \<lparr>shape = [length (lit_grid expr), length (hd (lit_grid expr))],
                        elems = concat (grid_values L (lit_grid expr))\<rparr>]))"
proof (cases "lit_grid expr")
  case Nil
  then show ?thesis
    by (simp add: mat_via_grid parse_grid_eq numeric_def rectangular_def array_of_float_rows
        alloc_def)
next
  case (Cons r rs)
  then show ?thesis
    by (auto simp: mat_via_grid parse_grid_eq numeric_def rectangular_def array_of_float_rows
        alloc_def list_all_iff grid_values_def)
qed


lemma getitem_two_ints:
  assumes "shape a = [r, c]" and "i < r" and "j < c"
  shows "np_getitem a (KTuple [IInt (int i), IInt (int j)]) = Inr (Scalar (elems a ! (i * c + j)))"
  using assms by (simp add: np_getitem_def int_index_def)

lemma example_grids:
  "lit_grid ''1 2; 3 4'' = [[''1'', ''2''], [''3'', ''4'']]"
  "lit_grid ''1,2\<newline>3 4'' = [[''1'', ''2''], [''3'', ''4'']]"
  by (simp_all add: lit_grid_def lit_rows_def lit_tokens_def isspace_def)

text \<open>
  C1 (as amended). For every literal whose tokens are all read by \<open>float\<close> and whose
  non-empty rows have one length, \<open>mat\<close> returns a matrix, and the entry \<open>(i, j)\<close> of
  that matrix (rows and columns counted from 0 here, from 1 in the call) is the numeric
  value of token \<open>j\<close> of the non-empty row \<open>i\<close>, where rows are separated by semicolons
  or newlines and tokens by whitespace or commas. For a literal whose non-empty rows
  differ in length \<open>mat\<close> returns no matrix: it raises \<open>ValueError\<close>. In particular
  \<open>mat("1 2; 3 4")\<close> and \<open>mat("1,2\n3 4")\<close> give the same result.
\<close>

theorem mat_entries:
  "(numeric L (lit_grid expr) \<and> rectangular (lit_grid expr) \<longrightarrow>
      (\<exists>m st1. mat L st expr = (Inr m, st1)
         \<and> (\<forall>i j. i < length (lit_grid expr) \<and> j < length (lit_grid expr ! i) \<longrightarrow>
               (\<exists>v. str_to_float L (lit_grid expr ! i ! j) = Some v
                  \<and> M_call st1 m [IInt (int i + 1), IInt (int j + 1)] = Inr (Scalar v)))))
   \<and> (\<not> rectangular (lit_grid expr) \<longrightarrow> mat L st expr = (Inl ValueError, st))
   \<and> mat L st ''1 2; 3 4'' = mat L st ''1,2\<newline>3 4''"
proof (intro conjI impI)
  show "mat L st ''1 2; 3 4'' = mat L st ''1,2\<newline>3 4''"
    by (simp only: mat_via_grid example_grids)
next
  assume "\<not> rectangular (lit_grid expr)"
  then show "mat L st expr = (Inl ValueError, st)" by (simp add: mat_cases)
next
  let ?g = "lit_grid expr"
  let ?c = "length (hd ?g)"
  let ?a = "\<lparr>shape = [length ?g, ?c], elems = concat (grid_values L ?g)\<rparr>"
  let ?m = "\<lparr>A = length st\<rparr>"
  let ?st1 = "st @ [if ?g = [] then \<lparr>shape = [0], elems = []\<rparr> else ?a]"
  assume "numeric L ?g \<and> rectangular ?g"
  then have ok: "numeric L ?g" "rectangular ?g" by simp_all
  then have run: "mat L st expr = (Inr ?m, ?st1)" by (simp add: mat_cases)
  have entries: "\<exists>v. str_to_float L (?g ! i ! j) = Some v
                   \<and> M_call ?st1 ?m [IInt (int i + 1), IInt (int j + 1)] = Inr (Scalar v)"
    if i: "i < length ?g" and j: "j < length (?g ! i)" for i j
  proof -
    from i have ne: "?g \<noteq> []" by auto
    have row: "?g ! i \<in> set ?g" using i by simp
    then have len: "length (?g ! i) = ?c" using ok(2) by (simp add: rectangular_def)
    then have jc: "j < ?c" using j by simp
    have "?g ! i ! j \<in> set (?g ! i)" using j by simp
    with row ok(1) have "str_to_float L (?g ! i ! j) \<noteq> None"
      unfolding numeric_def by blast
    then obtain v where v: "str_to_float L (?g ! i ! j) = Some v" by blast
    have rect: "\<forall>r\<in>set (grid_values L ?g). length r = ?c"
      using ok(2) by (simp add: grid_values_def rectangular_def)
    have gi: "i < length (grid_values L ?g)" using i by (simp add: grid_values_def)
    have "concat (grid_values L ?g) ! (i * ?c + j) = grid_values L ?g ! i ! j"
      using rect gi jc by (rule concat_nth_rect)
    also have "\<dots> = v" using i j v by (simp add: grid_values_def)
    finally have elem: "elems ?a ! (i * ?c + j) = v" by simp
    have "shape ?a = [length ?g, ?c]" by simp
    then have "np_getitem ?a (KTuple [IInt (int i), IInt (int j)])
                 = Inr (Scalar (elems ?a ! (i * ?c + j)))"
      using i jc by (rule getitem_two_ints)
    then have "M_call ?st1 ?m [IInt (int i + 1), IInt (int j + 1)] = Inr (Scalar v)"
      using elem ne by (simp add: M_call_def)
    with v show ?thesis by blast
  qed
  from run entries
  show "\<exists>m st1. mat L st expr = (Inr m, st1)
          \<and> (\<forall>i j. i < length ?g \<and> j < length (?g ! i) \<longrightarrow>
                (\<exists>v. str_to_float L (?g ! i ! j) = Some v
                   \<and> M_call st1 m [IInt (int i + 1), IInt (int j + 1)] = Inr (Scalar v)))"
    by blast
qed

lemma example_mat:
  "mat exact_lib [] ''1 2; 3 4'' = (Inr \<lparr>A = 0\<rparr>, [\<lparr>shape = [2, 2], elems = [1, 2, 3, 4]\<rparr>])"
  by code_simp

lemma example_ragged_grid:
  "lit_grid ''1 2 3; 4 5'' = [[''1'', ''2'', ''3''], [''4'', ''5'']]"
  by (simp add: lit_grid_def lit_rows_def lit_tokens_def isspace_def)

theorem mat_entries_witness:
  "numeric exact_lib (lit_grid ''1 2; 3 4'') \<and> rectangular (lit_grid ''1 2; 3 4'')
   \<and> mat exact_lib [] ''1 2; 3 4'' = (Inr \<lparr>A = 0\<rparr>, [\<lparr>shape = [2, 2], elems = [1, 2, 3, 4]\<rparr>])
   \<and> (1::nat) < length (lit_grid ''1 2; 3 4'') \<and> (0::nat) < length (lit_grid ''1 2; 3 4'' ! 1)
   \<and> lit_grid ''1 2; 3 4'' ! 1 ! 0 = ''3''
   \<and> str_to_float exact_lib ''3'' = Some 3
   \<and> M_call [\<lparr>shape = [2, 2], elems = [1, 2, 3, 4]\<rparr>] \<lparr>A = 0\<rparr> [IInt (int 1 + 1), IInt (int 0 + 1)]
       = Inr (Scalar (3::real))
   \<and> \<not> rectangular (lit_grid ''1 2 3; 4 5'')
   \<and> mat exact_lib [] ''1 2 3; 4 5'' = (Inl ValueError, [])"
proof -
  let ?e = "''1 2; 3 4''"
  let ?r = "''1 2 3; 4 5''"
  let ?st1 = "[\<lparr>shape = [2, 2], elems = [1, 2, 3, 4 :: real]\<rparr>]"
  note inst = mat_entries [of exact_lib ?e "[]"]
  note ragged = mat_entries [of exact_lib ?r "[]"]
  have g: "lit_grid ?e = [[''1'', ''2''], [''3'', ''4'']]" by (rule example_grids)
  have num: "numeric exact_lib (lit_grid ?e)"
    by (simp add: g numeric_def exact_lib_def float_of_digits_def digit_val_def)
  have rect: "rectangular (lit_grid ?e)" by (simp add: g rectangular_def)
  have three: "str_to_float exact_lib ''3'' = Some 3"
    by (simp add: exact_lib_def float_of_digits_def digit_val_def)
  from inst num rect obtain m st1 where run: "mat exact_lib [] ?e = (Inr m, st1)"
    and entries: "\<forall>i j. i < length (lit_grid ?e) \<and> j < length (lit_grid ?e ! i) \<longrightarrow>
               (\<exists>v. str_to_float exact_lib (lit_grid ?e ! i ! j) = Some v
                  \<and> M_call st1 m [IInt (int i + 1), IInt (int j + 1)] = Inr (Scalar v))"
    by blast
  from run have m: "m = \<lparr>A = 0\<rparr>" and st1: "st1 = ?st1" unfolding example_mat by simp_all
  have "1 < length (lit_grid ?e) \<and> 0 < length (lit_grid ?e ! 1)" by (simp add: g)
  with entries obtain v where "str_to_float exact_lib (lit_grid ?e ! 1 ! 0) = Some v"
    and "M_call st1 m [IInt (int 1 + 1), IInt (int 0 + 1)] = Inr (Scalar v)"
    by blast
  with three have call: "M_call ?st1 \<lparr>A = 0\<rparr> [IInt (int 1 + 1), IInt (int 0 + 1)] = Inr (Scalar 3)"
    by (simp add: g m st1)
  have nrect: "\<not> rectangular (lit_grid ?r)" by (simp add: example_ragged_grid rectangular_def)
  with ragged have raises: "mat exact_lib [] ?r = (Inl ValueError, [])" by blast
  from num rect example_mat three call nrect raises show ?thesis by (simp add: g)
qed

text \<open>
  The claim as stated, for every literal with these separators, fails on a literal of
  numbers whose rows differ in length: \<open>mat("1 2; 3")\<close> returns no matrix, it raises
  \<open>ValueError\<close>, although \<open>float\<close> reads each of its three tokens.
\<close>

theorem mat_raises_on_ragged_literal_counterexample:
  "map (map (str_to_float exact_lib)) (lit_grid ''1 2; 3'') = [[Some 1, Some 2], [Some 3]]
   \<and> mat exact_lib [] ''1 2; 3'' = (Inl ValueError, [])"
proof -
  have "lit_grid ''1 2; 3'' = [[''1'', ''2''], [''3'']]"
    by (simp add: lit_grid_def lit_rows_def lit_tokens_def isspace_def)
  then have "map (map (str_to_float exact_lib)) (lit_grid ''1 2; 3'')
               = [[Some 1, Some 2], [Some 3]]"
    by (simp add: exact_lib_def float_of_digits_def digit_val_def)
  moreover have "mat exact_lib [] ''1 2; 3'' = (Inl ValueError, [])" by code_simp
  ultimately show ?thesis by blast
qed

section \<open>The matrix literal: the shape of the result\<close>

lemma length_concat_rect:
  "\<forall>r\<in>set xs. length r = c \<Longrightarrow> length (concat xs) = length xs * c"
  by (induction xs) simp_all

text \<open>
  C2 (as amended). For a delimited string of numbers (every token is read by \<open>float\<close>):
  when the literal has at least one non-empty row and all non-empty rows have the same
  number of entries, \<open>mat\<close> returns a two-dimensional array of shape (number of
  non-empty rows, number of entries per row), with as many elements as the shape
  asks for; when the rows differ in their number of entries \<open>mat\<close> raises \<open>ValueError\<close>
  and allocates nothing; when there is no non-empty row \<open>mat\<close> returns the
  one-dimensional empty array of shape \<open>(0,)\<close>.
\<close>

theorem mat_shape:
  assumes "numeric L (lit_grid expr)"
  shows "(lit_grid expr \<noteq> [] \<and> rectangular (lit_grid expr) \<longrightarrow>
            (\<exists>m st1. mat L st expr = (Inr m, st1)
               \<and> M_shape st1 m = [length (lit_grid expr), length (hd (lit_grid expr))]
               \<and> wf_array (st1 ! A m)))
         \<and> (\<not> rectangular (lit_grid expr) \<longrightarrow> mat L st expr = (Inl ValueError, st))
         \<and> (lit_grid expr = [] \<longrightarrow>
               (\<exists>m st1. mat L st expr = (Inr m, st1) \<and> M_shape st1 m = [0]))"
proof (intro conjI impI)
  let ?g = "lit_grid expr"
  define c where "c = length (hd ?g)"
  assume g: "?g \<noteq> [] \<and> rectangular ?g"
  then have rect: "\<forall>row\<in>set ?g. length row = c"
    unfolding rectangular_def c_def by blast
  let ?a = "\<lparr>shape = [length ?g, c], elems = concat (grid_values L ?g)\<rparr>"
  have "mat L st expr = (Inr \<lparr>A = length st\<rparr>,
          st @ [\<lparr>shape = [length ?g, length (hd ?g)], elems = concat (grid_values L ?g)\<rparr>])"
    using assms g by (simp only: mat_cases simp_thms if_False)
  then have run: "mat L st expr = (Inr \<lparr>A = length st\<rparr>, st @ [?a])"
    by (simp only: c_def)
  have "\<forall>r\<in>set (grid_values L ?g). length r = c"
    using rect by (simp add: grid_values_def)
  then have "length (concat (grid_values L ?g)) = length (grid_values L ?g) * c"
    by (rule length_concat_rect)
  then have "wf_array ?a" by (simp add: wf_array_def grid_values_def)
  with run have "\<exists>m st1. mat L st expr = (Inr m, st1)
      \<and> M_shape st1 m = [length ?g, c] \<and> wf_array (st1 ! A m)"
    by (simp add: M_shape_def)
  then show "\<exists>m st1. mat L st expr = (Inr m, st1)
      \<and> M_shape st1 m = [length ?g, length (hd ?g)] \<and> wf_array (st1 ! A m)"
    by (simp only: c_def)
next
  assume "\<not> rectangular (lit_grid expr)"
  then show "mat L st expr = (Inl ValueError, st)" by (simp add: mat_cases)
next
  assume "lit_grid expr = []"
  then show "\<exists>m st1. mat L st expr = (Inr m, st1) \<and> M_shape st1 m = [0]"
    using assms by (simp add: mat_cases rectangular_def M_shape_def)
qed

lemma example_mat_2x3:
  "mat exact_lib [] ''1 2 3; 4 5 6''
     = (Inr \<lparr>A = 0\<rparr>, [\<lparr>shape = [2, 3], elems = [1, 2, 3, 4, 5, 6]\<rparr>])"
  by code_simp

lemma example_grid_2x3:
  "lit_grid ''1 2 3; 4 5 6'' = [[''1'', ''2'', ''3''], [''4'', ''5'', ''6'']]"
  by (simp add: lit_grid_def lit_rows_def lit_tokens_def isspace_def)

lemma example_numeric_2x3: "numeric exact_lib (lit_grid ''1 2 3; 4 5 6'')"
  by (simp add: example_grid_2x3 numeric_def exact_lib_def float_of_digits_def digit_val_def)

theorem mat_shape_witness:
  "numeric exact_lib (lit_grid ''1 2 3; 4 5 6'')
   \<and> lit_grid ''1 2 3; 4 5 6'' \<noteq> [] \<and> rectangular (lit_grid ''1 2 3; 4 5 6'')
   \<and> mat exact_lib [] ''1 2 3; 4 5 6''
       = (Inr \<lparr>A = 0\<rparr>, [\<lparr>shape = [2, 3], elems = [1, 2, 3, 4, 5, 6]\<rparr>])
   \<and> M_shape [\<lparr>shape = [2, 3], elems = [1, 2, 3, 4, 5, 6 :: real]\<rparr>] \<lparr>A = 0\<rparr>
       = [length (lit_grid ''1 2 3; 4 5 6''), length (hd (lit_grid ''1 2 3; 4 5 6''))]"
proof -
  let ?e = "''1 2 3; 4 5 6''"
  have num: "numeric exact_lib (lit_grid ?e)" by (rule example_numeric_2x3)
  have rect: "lit_grid ?e \<noteq> [] \<and> rectangular (lit_grid ?e)"
    by (simp add: example_grid_2x3 rectangular_def)
  from mat_shape [OF num, of "[]"] rect
  obtain m st1 where "mat exact_lib [] ?e = (Inr m, st1)"
    and "M_shape st1 m = [length (lit_grid ?e), length (hd (lit_grid ?e))]"
    by blast
  then have "M_shape [\<lparr>shape = [2, 3], elems = [1, 2, 3, 4, 5, 6 :: real]\<rparr>] \<lparr>A = 0\<rparr>
               = [length (lit_grid ?e), length (hd (lit_grid ?e))]"
    by (simp add: example_mat_2x3)
  with num rect example_mat_2x3 show ?thesis by simp
qed

text \<open>
  The claim as stated, for every delimited string of numbers, fails on rows of
  different lengths, where \<open>np.array\<close> refuses the ragged list, and on the empty
  literal, whose result is one-dimensional.
\<close>

theorem mat_ragged_or_empty_counterexample:
  "lit_grid ''1 2; 3'' = [[''1'', ''2''], [''3'']]
   \<and> mat exact_lib [] ''1 2; 3'' = (Inl ValueError, [])
   \<and> mat exact_lib [] '''' = (Inr \<lparr>A = 0\<rparr>, [\<lparr>shape = [0], elems = []\<rparr>])
   \<and> M_shape [\<lparr>shape = [0], elems = [] :: real list\<rparr>] \<lparr>A = 0\<rparr> = [0]"
proof -
  have "lit_grid ''1 2; 3'' = [[''1'', ''2''], [''3'']]"
    by (simp add: lit_grid_def lit_rows_def lit_tokens_def isspace_def)
  moreover have "mat exact_lib [] ''1 2; 3'' = (Inl ValueError, [])" by code_simp
  moreover have "mat exact_lib [] '''' = (Inr \<lparr>A = 0\<rparr>, [\<lparr>shape = [0], elems = []\<rparr>])"
    by code_simp
  ultimately show ?thesis by (simp add: M_shape_def)
qed

section \<open>Matrix product and elementwise product\<close>

lemma M_of_result_Inr:
  "M_of_result L st (Inr a) = (Inr \<lparr>A = length st\<rparr>, st @ [a])"
  by (simp add: M_of_result_def alloc_def np_copy_def)

lemma M_of_result_Inl: "M_of_result L st (Inl e) = (Inl e, st)"
  by (simp add: M_of_result_def)

lemma full_slice: "slice_indices n None None None = Inr [0..<n]"
proof -
  have "map nat (map (\<lambda>k. int k) [0..<n]) = [0..<n]"
    by (simp add: comp_def)
  then show ?thesis
    by (simp add: slice_indices_def slice_bound_def py_range_def)
qed

lemma concat_singletons: "concat (map (\<lambda>p. [f p]) xs) = map f xs"
  by (induction xs) simp_all

lemma getitem_row:
  assumes "shape a = [m, k]" and "i < m"
  shows "np_getitem a (KTuple [IInt (int i), ISlice None None None])
           = Inr (View \<lparr>shape = [k], elems = map (\<lambda>l. elems a ! (i * k + l)) [0..<k]\<rparr>)"
  using assms
  by (simp add: np_getitem_def int_index_def full_slice sel_shape_def concat_singletons comp_def)

lemma getitem_col:
  assumes "shape a = [k, n]" and "j < n"
  shows "np_getitem a (KTuple [ISlice None None None, IInt (int j)])
           = Inr (View \<lparr>shape = [k], elems = map (\<lambda>l. elems a ! (l * n + j)) [0..<k]\<rparr>)"
  using assms
  by (simp add: np_getitem_def int_index_def full_slice sel_shape_def concat_singletons comp_def)

lemma take_drop_map_nth:
  "i + k \<le> length xs \<Longrightarrow> take k (drop i xs) = map (\<lambda>l. xs ! (i + l)) [0..<k]"
  by (rule nth_equalityI) simp_all

lemma row_of_entries:
  assumes "wf_array a" and "shape a = [m, k]" and "i < m"
  shows "row_of a i = map (\<lambda>l. elems a ! (i * k + l)) [0..<k]"
proof -
  have "Suc i * k \<le> m * k" using assms(3) by (intro mult_le_mono1) simp
  then have "i * k + k \<le> length (elems a)" using assms(1,2) by (simp add: wf_array_def)
  then show ?thesis using assms(2) by (simp add: row_of_def block_def take_drop_map_nth)
qed

lemma col_of_entries:
  assumes "shape a = [k, n]"
  shows "col_of a j = map (\<lambda>l. elems a ! (l * n + j)) [0..<k]"
  using assms by (simp add: col_of_def)

lemma nth_grid:
  assumes "i < m" and "j < n"
  shows "concat (map (\<lambda>i. map (f i) [0..<n]) [0..<m]) ! (i * n + j) = f i j"
proof -
  let ?data = "map (\<lambda>i. map (f i) [0..<n]) [0..<m]"
  have "\<forall>r\<in>set ?data. length r = n" by auto
  moreover have "i < length ?data" using assms by simp
  ultimately have "concat ?data ! (i * n + j) = ?data ! i ! j"
    using assms(2) by (rule concat_nth_rect)
  then show ?thesis using assms by simp
qed

lemma matmul_2d:
  assumes "shape a = [m, k]" and "shape b = [k, n]"
  shows "np_matmul L a b
           = Inr \<lparr>shape = [m, n],
                  elems = concat (map (\<lambda>i. map (\<lambda>j. vdot L (row_of a i) (col_of b j)) [0..<n])
                                      [0..<m])\<rparr>"
  using assms by (simp add: np_matmul_def)


lemma bc_rev_same: "bc_rev xs xs = Some xs"
  by (induction xs) simp_all

lemma broadcast_shape_same: "broadcast_shape s s = Some s"
  by (simp add: broadcast_shape_def bc_rev_same)

lemma block_Suc: "block p (Suc i) xs = block p i (drop p xs)"
  by (simp add: block_def add.commute)

lemma concat_blocks:
  "length xs = t * p \<Longrightarrow> concat (map (\<lambda>i. block p i xs) [0..<t]) = xs"
proof (induction t arbitrary: xs)
  case 0
  then show ?case by simp
next
  case (Suc t)
  have "[0..<Suc t] = 0 # map Suc [0..<t]"
    by (simp only: upt_conv_Cons zero_less_Suc map_Suc_upt)
  then have "concat (map (\<lambda>i. block p i xs) [0..<Suc t])
               = block p 0 xs @ concat (map (\<lambda>i. block p i (drop p xs)) [0..<t])"
    by (simp add: comp_def block_Suc del: upt_Suc)
  also have "concat (map (\<lambda>i. block p i (drop p xs)) [0..<t]) = drop p xs"
    using Suc.prems by (intro Suc.IH) simp
  finally show ?case by (simp add: block_def)
qed

lemma length_block:
  "length xs = t * p \<Longrightarrow> i < t \<Longrightarrow> length (block p i xs) = p"
proof -
  assume len: "length xs = t * p" and i: "i < t"
  have "Suc i * p \<le> t * p" using i by (intro mult_le_mono1) simp
  then show ?thesis using len by (simp add: block_def)
qed

lemma broadcast_to_same:
  "length xs = prod_list s \<Longrightarrow> broadcast_to s s xs = xs"
proof (induction s arbitrary: xs)
  case Nil
  then show ?case by simp
next
  case (Cons t ts)
  have eq: "map (\<lambda>i. broadcast_to ts ts (block (prod_list ts) i xs)) [0..<t]
          = map (\<lambda>i. block (prod_list ts) i xs) [0..<t]"
  proof (rule map_cong [OF refl])
    fix i assume "i \<in> set [0..<t]"
    then have "length (block (prod_list ts) i xs) = prod_list ts"
      using Cons.prems by (intro length_block [of xs t]) simp_all
    then show "broadcast_to ts ts (block (prod_list ts) i xs) = block (prod_list ts) i xs"
      by (rule Cons.IH)
  qed
  have "broadcast_to (t # ts) (t # ts) xs
          = concat (map (\<lambda>i. broadcast_to ts ts (block (prod_list ts) i xs)) [0..<t])"
    by simp
  also have "\<dots> = concat (map (\<lambda>i. block (prod_list ts) i xs) [0..<t])"
    by (simp only: eq)
  also have "\<dots> = xs"
    using Cons.prems by (intro concat_blocks) simp
  finally show ?case .
qed

lemma binop_same_shape:
  assumes "wf_array a" and "wf_array b" and "shape b = shape a"
  shows "np_binop f a b = Inr \<lparr>shape = shape a, elems = map2 f (elems a) (elems b)\<rparr>"
  using assms
  by (simp add: np_binop_def broadcast_shape_same broadcast_to_same wf_array_def)


lemma M_mul_2d:
  assumes "shape (st ! A a) = [m, k]" and "shape (unwrap st other) = [k, n]"
  shows "M_mul L st a other
           = (Inr \<lparr>A = length st\<rparr>,
              st @ [\<lparr>shape = [m, n],
                     elems = concat (map (\<lambda>i. map (\<lambda>j. vdot L (row_of (st ! A a) i)
                                                               (col_of (unwrap st other) j))
                                                   [0..<n])
                                         [0..<m])\<rparr>])"
  using assms by (simp add: M_mul_def matmul_2d M_of_result_Inr)

lemma M_emul_same_shape:
  assumes "wf_array (st ! A a)" and "wf_array (unwrap st other)"
    and "shape (unwrap st other) = shape (st ! A a)"
  shows "M_emul L st a other
           = (Inr \<lparr>A = length st\<rparr>,
              st @ [\<lparr>shape = shape (st ! A a),
                     elems = map2 (f_mul L) (elems (st ! A a)) (elems (unwrap st other))\<rparr>])"
  using assms by (simp add: M_emul_def binop_same_shape M_of_result_Inr)

lemma call_entry:
  assumes "shape (st ! A a) = [m, n]" and "i < m" and "j < n"
  shows "M_call st a [IInt (int i + 1), IInt (int j + 1)]
           = Inr (Scalar (elems (st ! A a) ! (i * n + j)))"
  using getitem_two_ints [OF assms] by (simp add: M_call_def)

lemma call_row:
  assumes "shape (st ! A a) = [m, k]" and "i < m"
  shows "M_call st a [IInt (int i + 1), ISlice None None None]
           = Inr (View \<lparr>shape = [k], elems = map (\<lambda>l. elems (st ! A a) ! (i * k + l)) [0..<k]\<rparr>)"
  using getitem_row [OF assms] by (simp add: M_call_def)

lemma call_col:
  assumes "shape (st ! A a) = [k, n]" and "j < n"
  shows "M_call st a [ISlice None None None, IInt (int j + 1)]
           = Inr (View \<lparr>shape = [k], elems = map (\<lambda>l. elems (st ! A a) ! (l * n + j)) [0..<k]\<rparr>)"
  using getitem_col [OF assms] by (simp add: M_call_def)

text \<open>
  C4. \<open>A * B\<close> and \<open>A.emul(B)\<close> are different operations. For matrices \<open>A\<close> of shape
  \<open>(m, k)\<close> and \<open>B\<close> of shape \<open>(k, n)\<close>, \<open>A * B\<close> returns a new matrix of shape \<open>(m, n)\<close>
  whose entry \<open>(i, j)\<close> is the library's inner product of row \<open>i\<close> of \<open>A\<close>, which is
  \<open>A(i, :)\<close>, and column \<open>j\<close> of \<open>B\<close>, which is \<open>B(:, j)\<close>. For matrices of one shape
  \<open>(m, n)\<close>, \<open>A.emul(B)\<close> returns a new matrix of that shape whose entry \<open>(i, j)\<close> is the
  float product of \<open>A(i, j)\<close> and \<open>B(i, j)\<close>. (Rows and columns are counted from 0 in
  the statement and from 1 in the calls.)
\<close>

theorem mul_is_matrix_product_and_emul_is_elementwise:
  "(wf_array (st ! A a) \<and> shape (st ! A a) = [m, k] \<and> shape (st ! A b) = [k, n] \<longrightarrow>
      (\<exists>c st1. M_mul L st a (OM b) = (Inr c, st1) \<and> M_shape st1 c = [m, n]
         \<and> (\<forall>i j. i < m \<and> j < n \<longrightarrow>
               (\<exists>r q. M_call st a [IInt (int i + 1), ISlice None None None]
                          = Inr (View \<lparr>shape = [k], elems = r\<rparr>)
                     \<and> M_call st b [ISlice None None None, IInt (int j + 1)]
                          = Inr (View \<lparr>shape = [k], elems = q\<rparr>)
                     \<and> M_call st1 c [IInt (int i + 1), IInt (int j + 1)]
                          = Inr (Scalar (vdot L r q))))))
   \<and> (wf_array (st ! A a) \<and> wf_array (st ! A b)
       \<and> shape (st ! A a) = [m, n] \<and> shape (st ! A b) = [m, n] \<longrightarrow>
      (\<exists>c st1. M_emul L st a (OM b) = (Inr c, st1) \<and> M_shape st1 c = [m, n]
         \<and> (\<forall>i j. i < m \<and> j < n \<longrightarrow>
               (\<exists>p q. M_call st a [IInt (int i + 1), IInt (int j + 1)] = Inr (Scalar p)
                     \<and> M_call st b [IInt (int i + 1), IInt (int j + 1)] = Inr (Scalar q)
                     \<and> M_call st1 c [IInt (int i + 1), IInt (int j + 1)]
                          = Inr (Scalar (f_mul L p q))))))"
proof (intro conjI impI)
  let ?x = "st ! A a" and ?y = "st ! A b"
  assume h: "wf_array ?x \<and> shape ?x = [m, k] \<and> shape ?y = [k, n]"
  then have wf: "wf_array ?x" and sx: "shape ?x = [m, k]" and sy: "shape ?y = [k, n]"
    by simp_all
  let ?f = "\<lambda>i j. vdot L (row_of ?x i) (col_of ?y j)"
  let ?z = "\<lparr>shape = [m, n], elems = concat (map (\<lambda>i. map (?f i) [0..<n]) [0..<m])\<rparr>"
  let ?c = "\<lparr>A = length st\<rparr>"
  have run: "M_mul L st a (OM b) = (Inr ?c, st @ [?z])"
    using M_mul_2d [of st a m k "OM b" n L] sx sy by simp
  have sh: "M_shape (st @ [?z]) ?c = [m, n]" by (simp add: M_shape_def)
  have ent: "\<exists>r q. M_call st a [IInt (int i + 1), ISlice None None None]
                      = Inr (View \<lparr>shape = [k], elems = r\<rparr>)
                 \<and> M_call st b [ISlice None None None, IInt (int j + 1)]
                      = Inr (View \<lparr>shape = [k], elems = q\<rparr>)
                 \<and> M_call (st @ [?z]) ?c [IInt (int i + 1), IInt (int j + 1)]
                      = Inr (Scalar (vdot L r q))"
    if ij: "i < m \<and> j < n" for i j
  proof -
    from ij have i: "i < m" and j: "j < n" by simp_all
    have "shape ((st @ [?z]) ! A ?c) = [m, n]" by simp
    then have "M_call (st @ [?z]) ?c [IInt (int i + 1), IInt (int j + 1)]
                 = Inr (Scalar (elems ((st @ [?z]) ! A ?c) ! (i * n + j)))"
      using i j by (rule call_entry)
    also have "elems ((st @ [?z]) ! A ?c) ! (i * n + j) = ?f i j"
      using i j by (simp add: nth_grid)
    also have "?f i j = vdot L (map (\<lambda>l. elems ?x ! (i * k + l)) [0..<k])
                               (map (\<lambda>l. elems ?y ! (l * n + j)) [0..<k])"
      using row_of_entries [OF wf sx i] col_of_entries [OF sy, of j] by simp
    finally show ?thesis
      using call_row [OF sx i] call_col [OF sy j] by blast
  qed
  from run sh ent show "\<exists>c st1. M_mul L st a (OM b) = (Inr c, st1) \<and> M_shape st1 c = [m, n]
         \<and> (\<forall>i j. i < m \<and> j < n \<longrightarrow>
               (\<exists>r q. M_call st a [IInt (int i + 1), ISlice None None None]
                          = Inr (View \<lparr>shape = [k], elems = r\<rparr>)
                     \<and> M_call st b [ISlice None None None, IInt (int j + 1)]
                          = Inr (View \<lparr>shape = [k], elems = q\<rparr>)
                     \<and> M_call st1 c [IInt (int i + 1), IInt (int j + 1)]
                          = Inr (Scalar (vdot L r q))))"
    by blast
next
  let ?x = "st ! A a" and ?y = "st ! A b"
  assume h: "wf_array ?x \<and> wf_array ?y \<and> shape ?x = [m, n] \<and> shape ?y = [m, n]"
  then have wfx: "wf_array ?x" and wfy: "wf_array ?y"
    and sx: "shape ?x = [m, n]" and sy: "shape ?y = [m, n]"
    by simp_all
  let ?z = "\<lparr>shape = [m, n], elems = map2 (f_mul L) (elems ?x) (elems ?y)\<rparr>"
  let ?c = "\<lparr>A = length st\<rparr>"
  have run: "M_emul L st a (OM b) = (Inr ?c, st @ [?z])"
    using M_emul_same_shape [of st a "OM b" L] wfx wfy sx sy by simp
  have sh: "M_shape (st @ [?z]) ?c = [m, n]" by (simp add: M_shape_def)
  have ent: "\<exists>p q. M_call st a [IInt (int i + 1), IInt (int j + 1)] = Inr (Scalar p)
                 \<and> M_call st b [IInt (int i + 1), IInt (int j + 1)] = Inr (Scalar q)
                 \<and> M_call (st @ [?z]) ?c [IInt (int i + 1), IInt (int j + 1)]
                      = Inr (Scalar (f_mul L p q))"
    if ij: "i < m \<and> j < n" for i j
  proof -
    from ij have i: "i < m" and j: "j < n" by simp_all
    have "i * n + j < m * n" using i j by (rule offset_in_range)
    then have inx: "i * n + j < length (elems ?x)" and iny: "i * n + j < length (elems ?y)"
      using wfx wfy sx sy by (simp_all add: wf_array_def)
    have "shape ((st @ [?z]) ! A ?c) = [m, n]" by simp
    then have "M_call (st @ [?z]) ?c [IInt (int i + 1), IInt (int j + 1)]
                 = Inr (Scalar (elems ((st @ [?z]) ! A ?c) ! (i * n + j)))"
      using i j by (rule call_entry)
    also have "elems ((st @ [?z]) ! A ?c) ! (i * n + j)
                 = f_mul L (elems ?x ! (i * n + j)) (elems ?y ! (i * n + j))"
      using inx iny by simp
    finally show ?thesis
      using call_entry [OF sx i j] call_entry [OF sy i j] by blast
  qed
  from run sh ent show "\<exists>c st1. M_emul L st a (OM b) = (Inr c, st1) \<and> M_shape st1 c = [m, n]
         \<and> (\<forall>i j. i < m \<and> j < n \<longrightarrow>
               (\<exists>p q. M_call st a [IInt (int i + 1), IInt (int j + 1)] = Inr (Scalar p)
                     \<and> M_call st b [IInt (int i + 1), IInt (int j + 1)] = Inr (Scalar q)
                     \<and> M_call st1 c [IInt (int i + 1), IInt (int j + 1)]
                          = Inr (Scalar (f_mul L p q))))"
    by blast
qed


lemma example_mul:
  "M_mul exact_lib [\<lparr>shape = [2, 2], elems = [1, 2, 3, 4]\<rparr>, \<lparr>shape = [2, 2], elems = [5, 6, 7, 8]\<rparr>]
     \<lparr>A = 0\<rparr> (OM \<lparr>A = 1\<rparr>)
   = (Inr \<lparr>A = 2\<rparr>,
      [\<lparr>shape = [2, 2], elems = [1, 2, 3, 4]\<rparr>, \<lparr>shape = [2, 2], elems = [5, 6, 7, 8]\<rparr>,
       \<lparr>shape = [2, 2], elems = [19, 22, 43, 50]\<rparr>])"
  by code_simp

lemma example_emul:
  "M_emul exact_lib [\<lparr>shape = [2, 2], elems = [1, 2, 3, 4]\<rparr>, \<lparr>shape = [2, 2], elems = [5, 6, 7, 8]\<rparr>]
     \<lparr>A = 0\<rparr> (OM \<lparr>A = 1\<rparr>)
   = (Inr \<lparr>A = 2\<rparr>,
      [\<lparr>shape = [2, 2], elems = [1, 2, 3, 4]\<rparr>, \<lparr>shape = [2, 2], elems = [5, 6, 7, 8]\<rparr>,
       \<lparr>shape = [2, 2], elems = [5, 12, 21, 32]\<rparr>])"
  by code_simp

theorem mul_is_matrix_product_and_emul_is_elementwise_witness:
  "wf_array ([\<lparr>shape = [2, 2], elems = [1, 2, 3, 4 :: real]\<rparr>,
              \<lparr>shape = [2, 2], elems = [5, 6, 7, 8]\<rparr>] ! A \<lparr>A = 0\<rparr>)
   \<and> wf_array ([\<lparr>shape = [2, 2], elems = [1, 2, 3, 4 :: real]\<rparr>,
                \<lparr>shape = [2, 2], elems = [5, 6, 7, 8]\<rparr>] ! A \<lparr>A = 1\<rparr>)
   \<and> M_mul exact_lib [\<lparr>shape = [2, 2], elems = [1, 2, 3, 4]\<rparr>,
                       \<lparr>shape = [2, 2], elems = [5, 6, 7, 8]\<rparr>] \<lparr>A = 0\<rparr> (OM \<lparr>A = 1\<rparr>)
       = (Inr \<lparr>A = 2\<rparr>,
          [\<lparr>shape = [2, 2], elems = [1, 2, 3, 4]\<rparr>, \<lparr>shape = [2, 2], elems = [5, 6, 7, 8]\<rparr>,
           \<lparr>shape = [2, 2], elems = [19, 22, 43, 50]\<rparr>])
   \<and> M_emul exact_lib [\<lparr>shape = [2, 2], elems = [1, 2, 3, 4]\<rparr>,
                        \<lparr>shape = [2, 2], elems = [5, 6, 7, 8]\<rparr>] \<lparr>A = 0\<rparr> (OM \<lparr>A = 1\<rparr>)
       = (Inr \<lparr>A = 2\<rparr>,
          [\<lparr>shape = [2, 2], elems = [1, 2, 3, 4]\<rparr>, \<lparr>shape = [2, 2], elems = [5, 6, 7, 8]\<rparr>,
           \<lparr>shape = [2, 2], elems = [5, 12, 21, 32]\<rparr>])
   \<and> M_shape [\<lparr>shape = [2, 2], elems = [1, 2, 3, 4]\<rparr>, \<lparr>shape = [2, 2], elems = [5, 6, 7, 8]\<rparr>,
               \<lparr>shape = [2, 2], elems = [19, 22, 43, 50 :: real]\<rparr>] \<lparr>A = 2\<rparr> = [2, 2]
   \<and> M_shape [\<lparr>shape = [2, 2], elems = [1, 2, 3, 4]\<rparr>, \<lparr>shape = [2, 2], elems = [5, 6, 7, 8]\<rparr>,
               \<lparr>shape = [2, 2], elems = [5, 12, 21, 32 :: real]\<rparr>] \<lparr>A = 2\<rparr> = [2, 2]"
proof -
  let ?x = "\<lparr>shape = [2, 2], elems = [1, 2, 3, 4 :: real]\<rparr>"
  let ?y = "\<lparr>shape = [2, 2], elems = [5, 6, 7, 8 :: real]\<rparr>"
  let ?st = "[?x, ?y]"
  note inst = mul_is_matrix_product_and_emul_is_elementwise
                [of ?st "\<lparr>A = 0\<rparr>" 2 2 "\<lparr>A = 1\<rparr>" 2 exact_lib]
  have wf: "wf_array (?st ! A \<lparr>A = 0\<rparr>)" "wf_array (?st ! A \<lparr>A = 1\<rparr>)"
    by (simp_all add: wf_array_def)
  have sh: "shape (?st ! A \<lparr>A = 0\<rparr>) = [2, 2]" "shape (?st ! A \<lparr>A = 1\<rparr>) = [2, 2]"
    by simp_all
  from inst [THEN conjunct1] wf sh
  obtain c st1 where run: "M_mul exact_lib ?st \<lparr>A = 0\<rparr> (OM \<lparr>A = 1\<rparr>) = (Inr c, st1)"
    and shc: "M_shape st1 c = [2, 2]"
    by blast
  from run have "c = \<lparr>A = 2\<rparr> \<and> st1 = [?x, ?y, \<lparr>shape = [2, 2], elems = [19, 22, 43, 50]\<rparr>]"
    unfolding example_mul by simp
  with shc have mul_shape:
    "M_shape [?x, ?y, \<lparr>shape = [2, 2], elems = [19, 22, 43, 50]\<rparr>] \<lparr>A = 2\<rparr> = [2, 2]"
    by simp
  from inst [THEN conjunct2] wf sh
  obtain d st2 where run2: "M_emul exact_lib ?st \<lparr>A = 0\<rparr> (OM \<lparr>A = 1\<rparr>) = (Inr d, st2)"
    and shd: "M_shape st2 d = [2, 2]"
    by blast
  from run2 have "d = \<lparr>A = 2\<rparr> \<and> st2 = [?x, ?y, \<lparr>shape = [2, 2], elems = [5, 12, 21, 32]\<rparr>]"
    unfolding example_emul by simp
  with shd have emul_shape:
    "M_shape [?x, ?y, \<lparr>shape = [2, 2], elems = [5, 12, 21, 32]\<rparr>] \<lparr>A = 2\<rparr> = [2, 2]"
    by simp
  from wf example_mul example_emul mul_shape emul_shape show ?thesis by blast
qed

section \<open>Concatenation\<close>

lemma atleast_2d_matrix: "shape a = [r, c] \<Longrightarrow> atleast_2d a = a"
  by (simp add: atleast_2d_def)

lemma atleast_1d_matrix: "shape a = [r, c] \<Longrightarrow> atleast_1d a = a"
  by (simp add: atleast_1d_def)

lemma vstack_2d:
  assumes "xs \<noteq> []" and "\<forall>a\<in>set xs. \<exists>r. shape a = [r, c]"
  shows "np_vstack xs = Inr \<lparr>shape = [sum_list (map (\<lambda>a. shape a ! 0) xs), c],
                                elems = concat (map elems xs)\<rparr>"
proof -
  have id: "map atleast_2d xs = xs"
    using assms(2) by (intro map_idI) (auto simp: atleast_2d_matrix)
  obtain a0 rest where xs: "xs = a0 # rest" using assms(1) by (cases xs) auto
  obtain r0 where a0: "shape a0 = [r0, c]" using assms(2) xs by auto
  have nd: "list_all (\<lambda>a. length (shape a) = length (shape a0)) rest"
    using assms(2) xs a0 by (auto simp: list_all_iff)
  have off: "list_all (\<lambda>a. off_axis 0 (shape a) = off_axis 0 (shape a0)) rest"
    using assms(2) xs a0 by (auto simp: list_all_iff off_axis_def)
  have hd0: "map (\<lambda>a. hd (shape a)) xs = map (\<lambda>a. shape a ! 0) xs"
    using assms(2) by (intro map_cong [OF refl]) auto
  have "np_concatenate 0 xs = Inr \<lparr>shape = sum_list (map (\<lambda>a. hd (shape a)) xs) # tl (shape a0),
                                    elems = concat (map elems xs)\<rparr>"
    using nd off a0 unfolding np_concatenate_def xs by simp
  then show ?thesis using a0 by (simp only: np_vstack_def id hd0 list.sel)
qed

lemma hstack_2d:
  assumes "xs \<noteq> []" and "\<forall>a\<in>set xs. \<exists>c. shape a = [r, c]"
  shows "np_hstack xs
           = Inr \<lparr>shape = [r, sum_list (map (\<lambda>a. shape a ! 1) xs)],
                  elems = concat (map (\<lambda>i. concat (map (\<lambda>a. block (shape a ! 1) i (elems a)) xs))
                                      [0..<r])\<rparr>"
proof -
  have id: "map atleast_1d xs = xs"
    using assms(2) by (intro map_idI) (auto simp: atleast_1d_matrix)
  obtain a0 rest where xs: "xs = a0 # rest" using assms(1) by (cases xs) auto
  obtain c0 where a0: "shape a0 = [r, c0]" using assms(2) xs by auto
  have nd: "list_all (\<lambda>a. length (shape a) = length (shape a0)) rest"
    using assms(2) xs a0 by (auto simp: list_all_iff)
  have off: "list_all (\<lambda>a. off_axis 1 (shape a) = off_axis 1 (shape a0)) rest"
    using assms(2) xs a0 by (auto simp: list_all_iff off_axis_def)
  have d2: "drop 2 (shape a0) = []" and hd0: "hd (shape a0) = r"
    using a0 by simp_all
  have blk: "map (\<lambda>a. block (prod_list (tl (shape a))) i (elems a)) xs
               = map (\<lambda>a. block (shape a ! 1) i (elems a)) xs" for i
    using assms(2) by (intro map_cong [OF refl]) auto
  have "np_concatenate 1 xs
          = Inr \<lparr>shape = hd (shape a0) # sum_list (map (\<lambda>a. shape a ! 1) xs) # drop 2 (shape a0),
                 elems = concat (map (\<lambda>i. concat (map (\<lambda>a. block (prod_list (tl (shape a))) i
                                                               (elems a)) xs))
                                     [0..<hd (shape a0)])\<rparr>"
    using nd off a0 unfolding np_concatenate_def xs by simp
  then have "np_concatenate 1 xs
          = Inr \<lparr>shape = [r, sum_list (map (\<lambda>a. shape a ! 1) xs)],
                 elems = concat (map (\<lambda>i. concat (map (\<lambda>a. block (shape a ! 1) i (elems a)) xs))
                                     [0..<r])\<rparr>"
    by (simp only: blk d2 hd0)
  moreover have "np_hstack xs = np_concatenate 1 xs"
  proof -
    have "length (shape (hd xs)) \<noteq> 1" using a0 xs by simp
    then show ?thesis by (simp only: np_hstack_def id Let_def simp_thms if_False)
  qed
  ultimately show ?thesis by simp
qed


lemma upt_split: "[0..<n + k] = [0..<n] @ map (\<lambda>i. n + i) [0..<k]"
proof -
  have a: "[0..<n + k] = [0..<n] @ [n..<n + k]" by (rule upt_add_eq_append) simp
  have "map (\<lambda>i. i + n) [0..<k] = [n..<k + n]" by (rule map_add_upt)
  then have b: "map (\<lambda>i. n + i) [0..<k] = [n..<n + k]" by (simp only: add.commute)
  from a b show ?thesis by (simp only:)
qed

lemma block_append_left:
  assumes "length ys = n * c" and "i < n"
  shows "block c i (ys @ zs) = block c i ys"
proof -
  have "Suc i * c \<le> n * c" using assms(2) by (intro mult_le_mono1) simp
  then have "i * c + c \<le> length ys" using assms(1) by simp
  then show ?thesis by (simp add: block_def)
qed

lemma block_append_right:
  assumes "length ys = n * c"
  shows "block c (n + i) (ys @ zs) = block c i zs"
  using assms by (simp add: block_def add_mult_distrib)

lemma rows_append:
  assumes "length ys = n * c"
  shows "map (\<lambda>i. block c i (ys @ zs)) [0..<n + k]
           = map (\<lambda>i. block c i ys) [0..<n] @ map (\<lambda>i. block c i zs) [0..<k]"
proof -
  have left: "map (\<lambda>i. block c i (ys @ zs)) [0..<n] = map (\<lambda>i. block c i ys) [0..<n]"
  proof (rule map_cong [OF refl])
    fix i assume "i \<in> set [0..<n]"
    then have "i < n" by simp
    with assms show "block c i (ys @ zs) = block c i ys" by (rule block_append_left)
  qed
  have right: "map (\<lambda>i. block c (n + i) (ys @ zs)) [0..<k] = map (\<lambda>i. block c i zs) [0..<k]"
  proof (rule map_cong [OF refl])
    fix i
    show "block c (n + i) (ys @ zs) = block c i zs" using assms by (rule block_append_right)
  qed
  have "map (\<lambda>i. block c i (ys @ zs)) [0..<n + k]
          = map (\<lambda>i. block c i (ys @ zs)) ([0..<n] @ map (\<lambda>i. n + i) [0..<k])"
    by (simp only: upt_split)
  also have "\<dots> = map (\<lambda>i. block c i (ys @ zs)) [0..<n]
                    @ map (\<lambda>i. block c (n + i) (ys @ zs)) [0..<k]"
    by (simp only: map_append map_map comp_def)
  finally show ?thesis by (simp only: left right)
qed

lemma rows_of_vstack:
  assumes "\<forall>a\<in>set xs. wf_array a \<and> (\<exists>r. shape a = [r, c])"
  shows "map (\<lambda>i. block c i (concat (map elems xs))) [0..<sum_list (map (\<lambda>a. shape a ! 0) xs)]
           = concat (map matrix_rows xs)"
  using assms
proof (induction xs)
  case Nil
  show ?case by simp
next
  case (Cons a xs)
  then obtain r where sh: "shape a = [r, c]" and wf: "wf_array a" by auto
  have len: "length (elems a) = r * c" using wf sh by (simp add: wf_array_def)
  have s1: "map (\<lambda>i. block c i (elems a @ concat (map elems xs)))
            [0..<r + sum_list (map (\<lambda>a. shape a ! 0) xs)]
          = map (\<lambda>i. block c i (elems a)) [0..<r]
            @ map (\<lambda>i. block c i (concat (map elems xs)))
                  [0..<sum_list (map (\<lambda>a. shape a ! 0) xs)]"
    using len by (rule rows_append)
  have s2: "map (\<lambda>i. block c i (elems a)) [0..<r] = matrix_rows a"
    using sh by (simp add: matrix_rows_def row_of_def)
  have s3: "map (\<lambda>i. block c i (concat (map elems xs)))
                     [0..<sum_list (map (\<lambda>a. shape a ! 0) xs)]
                   = concat (map matrix_rows xs)"
    using Cons.prems by (intro Cons.IH) simp
  have e1: "sum_list (map (\<lambda>a. shape a ! 0) (a # xs)) = r + sum_list (map (\<lambda>a. shape a ! 0) xs)"
    using sh by simp
  have e2: "concat (map elems (a # xs)) = elems a @ concat (map elems xs)" by simp
  have e3: "concat (map matrix_rows (a # xs)) = matrix_rows a @ concat (map matrix_rows xs)"
    by simp
  show ?case by (simp only: e1 e2 e3 s1 s2 s3)
qed

lemma cols_concat:
  assumes "\<forall>a\<in>set xs. \<forall>l<r. length (f a l) = w a"
  shows "map (\<lambda>J. map (\<lambda>l. concat (map (\<lambda>a. f a l) xs) ! J) [0..<r]) [0..<sum_list (map w xs)]
           = concat (map (\<lambda>a. map (\<lambda>j. map (\<lambda>l. f a l ! j) [0..<r]) [0..<w a]) xs)"
  using assms
proof (induction xs)
  case Nil
  show ?case by simp
next
  case (Cons a xs)
  let ?rest = "\<lambda>l. concat (map (\<lambda>a. f a l) xs)"
  have la: "length (f a l) = w a" if "l < r" for l using Cons.prems that by simp
  have split: "[0..<w a + sum_list (map w xs)]
                 = [0..<w a] @ map (\<lambda>J. w a + J) [0..<sum_list (map w xs)]"
    by (rule upt_split)
  have left: "map (\<lambda>J. map (\<lambda>l. (f a l @ ?rest l) ! J) [0..<r]) [0..<w a]
                = map (\<lambda>j. map (\<lambda>l. f a l ! j) [0..<r]) [0..<w a]"
  proof (rule map_cong [OF refl])
    fix J assume "J \<in> set [0..<w a]"
    then have "J < w a" by simp
    then show "map (\<lambda>l. (f a l @ ?rest l) ! J) [0..<r] = map (\<lambda>l. f a l ! J) [0..<r]"
      using la by (intro map_cong [OF refl]) (simp add: nth_append)
  qed
  have right: "map (\<lambda>J. map (\<lambda>l. (f a l @ ?rest l) ! (w a + J)) [0..<r])
                   [0..<sum_list (map w xs)]
                 = map (\<lambda>J. map (\<lambda>l. ?rest l ! J) [0..<r]) [0..<sum_list (map w xs)]"
  proof (rule map_cong [OF refl])
    fix J
    show "map (\<lambda>l. (f a l @ ?rest l) ! (w a + J)) [0..<r] = map (\<lambda>l. ?rest l ! J) [0..<r]"
      using la by (intro map_cong [OF refl]) (simp add: nth_append)
  qed
  have ih: "map (\<lambda>J. map (\<lambda>l. ?rest l ! J) [0..<r]) [0..<sum_list (map w xs)]
              = concat (map (\<lambda>a. map (\<lambda>j. map (\<lambda>l. f a l ! j) [0..<r]) [0..<w a]) xs)"
    using Cons.prems by (intro Cons.IH) simp
  have "map (\<lambda>J. map (\<lambda>l. concat (map (\<lambda>a. f a l) (a # xs)) ! J) [0..<r])
            [0..<sum_list (map w (a # xs))]
          = map (\<lambda>J. map (\<lambda>l. (f a l @ ?rest l) ! J) [0..<r])
                ([0..<w a] @ map (\<lambda>J. w a + J) [0..<sum_list (map w xs)])"
    by (simp only: list.map concat.simps sum_list.Cons split)
  also have "\<dots> = map (\<lambda>J. map (\<lambda>l. (f a l @ ?rest l) ! J) [0..<r]) [0..<w a]
            @ map (\<lambda>J. map (\<lambda>l. (f a l @ ?rest l) ! (w a + J)) [0..<r])
                  [0..<sum_list (map w xs)]"
    by (simp only: map_append map_map comp_def)
  finally show ?case by (simp only: left right ih list.map concat.simps)
qed


lemma nth_block:
  assumes "length xs = n * c" and "l < n" and "j < c"
  shows "block c l xs ! j = xs ! (l * c + j)"
proof -
  have "Suc l * c \<le> n * c" using assms(2) by (intro mult_le_mono1) simp
  then have "l * c + c \<le> length xs" using assms(1) by simp
  then show ?thesis using assms(3) by (simp add: block_def)
qed

lemma cols_of_hstack:
  assumes "\<forall>a\<in>set xs. wf_array a \<and> (\<exists>c. shape a = [r, c])"
  shows "matrix_cols \<lparr>shape = [r, sum_list (map (\<lambda>a. shape a ! 1) xs)],
                       elems = concat (map (\<lambda>i. concat (map (\<lambda>a. block (shape a ! 1) i (elems a)) xs))
                                           [0..<r])\<rparr>
           = concat (map matrix_cols xs)"
proof -
  let ?w = "\<lambda>a. shape a ! 1"
  let ?f = "\<lambda>a l. block (?w a) l (elems a)"
  let ?C = "sum_list (map ?w xs)"
  let ?rowcat = "\<lambda>l. concat (map (\<lambda>a. ?f a l) xs)"
  let ?data = "map ?rowcat [0..<r]"
  let ?z = "\<lparr>shape = [r, ?C], elems = concat ?data\<rparr>"
  have len: "length (elems a) = r * ?w a" if "a \<in> set xs" for a
    using assms that by (auto simp: wf_array_def)
  have lf: "length (?f a l) = ?w a" if "a \<in> set xs" and "l < r" for a l
    using len [OF that(1)] that(2) by (rule length_block)
  have lrow: "length (?rowcat l) = ?C" if "l < r" for l
  proof -
    have m: "map (\<lambda>a. length (?f a l)) xs = map ?w xs"
      using lf that by (intro map_cong [OF refl]) simp
    show ?thesis by (simp only: length_concat map_map comp_def m)
  qed
  have rect: "\<forall>row\<in>set ?data. length row = ?C" using lrow by auto
  have entry: "concat ?data ! (l * ?C + J) = ?rowcat l ! J" if "l < r" and "J < ?C" for l J
  proof -
    have "l < length ?data" using that(1) by simp
    with rect have "concat ?data ! (l * ?C + J) = ?data ! l ! J"
      using that(2) by (rule concat_nth_rect)
    then show ?thesis using that(1) by simp
  qed
  have "matrix_cols ?z = map (\<lambda>J. map (\<lambda>l. concat ?data ! (l * ?C + J)) [0..<r]) [0..<?C]"
    by (simp add: matrix_cols_def col_of_def)
  also have "\<dots> = map (\<lambda>J. map (\<lambda>l. ?rowcat l ! J) [0..<r]) [0..<?C]"
  proof (rule map_cong [OF refl])
    fix J assume "J \<in> set [0..<?C]"
    then have J: "J < ?C" by simp
    show "map (\<lambda>l. concat ?data ! (l * ?C + J)) [0..<r] = map (\<lambda>l. ?rowcat l ! J) [0..<r]"
    proof (rule map_cong [OF refl])
      fix l assume "l \<in> set [0..<r]"
      then have "l < r" by simp
      then show "concat ?data ! (l * ?C + J) = ?rowcat l ! J" using J by (rule entry)
    qed
  qed
  also have "\<dots> = concat (map (\<lambda>a. map (\<lambda>j. map (\<lambda>l. ?f a l ! j) [0..<r]) [0..<?w a]) xs)"
    using lf by (intro cols_concat) simp
  also have "map (\<lambda>a. map (\<lambda>j. map (\<lambda>l. ?f a l ! j) [0..<r]) [0..<?w a]) xs = map matrix_cols xs"
  proof (rule map_cong [OF refl])
    fix a assume a: "a \<in> set xs"
    then obtain c where sh: "shape a = [r, c]" using assms by auto
    have "map (\<lambda>j. map (\<lambda>l. ?f a l ! j) [0..<r]) [0..<?w a]
            = map (\<lambda>j. map (\<lambda>l. elems a ! (l * ?w a + j)) [0..<r]) [0..<?w a]"
    proof (rule map_cong [OF refl])
      fix j assume "j \<in> set [0..<?w a]"
      then have j: "j < ?w a" by simp
      show "map (\<lambda>l. ?f a l ! j) [0..<r] = map (\<lambda>l. elems a ! (l * ?w a + j)) [0..<r]"
      proof (rule map_cong [OF refl])
        fix l assume "l \<in> set [0..<r]"
        then have "l < r" by simp
        with len [OF a] show "?f a l ! j = elems a ! (l * ?w a + j)" using j by (rule nth_block)
      qed
    qed
    also have "\<dots> = matrix_cols a" using sh by (simp add: matrix_cols_def col_of_def)
    finally show "map (\<lambda>j. map (\<lambda>l. ?f a l ! j) [0..<r]) [0..<?w a] = matrix_cols a" .
  qed
  finally show ?thesis .
qed


text \<open>
  C6. For one or more matrices with the same number \<open>c\<close> of columns, \<open>M.vcat\<close> returns a
  new matrix of shape (sum of the row counts, \<open>c\<close>) whose rows are the rows of the
  arguments, in order. For one or more matrices with the same number \<open>r\<close> of rows,
  \<open>M.hcat\<close> returns a new matrix of shape (\<open>r\<close>, sum of the column counts) whose columns
  are the columns of the arguments, in order.
\<close>

theorem vcat_and_hcat_stack_matrices:
  "(args \<noteq> [] \<and> (\<forall>x\<in>set args. wf_array (unwrap st x) \<and> (\<exists>r. shape (unwrap st x) = [r, c])) \<longrightarrow>
      (\<exists>m st1. M_vcat L st args = (Inr m, st1)
         \<and> M_shape st1 m = [sum_list (map (\<lambda>x. shape (unwrap st x) ! 0) args), c]
         \<and> matrix_rows (st1 ! A m) = concat (map (\<lambda>x. matrix_rows (unwrap st x)) args)))
   \<and> (args \<noteq> [] \<and> (\<forall>x\<in>set args. wf_array (unwrap st x) \<and> (\<exists>c. shape (unwrap st x) = [r, c])) \<longrightarrow>
      (\<exists>m st1. M_hcat L st args = (Inr m, st1)
         \<and> M_shape st1 m = [r, sum_list (map (\<lambda>x. shape (unwrap st x) ! 1) args)]
         \<and> matrix_cols (st1 ! A m) = concat (map (\<lambda>x. matrix_cols (unwrap st x)) args)))"
proof (intro conjI impI)
  let ?xs = "map (unwrap st) args"
  assume h: "args \<noteq> [] \<and> (\<forall>x\<in>set args. wf_array (unwrap st x) \<and> (\<exists>r. shape (unwrap st x) = [r, c]))"
  then have ne: "?xs \<noteq> []" and all: "\<forall>a\<in>set ?xs. wf_array a \<and> (\<exists>r. shape a = [r, c])"
    by simp_all
  from all have sh: "\<forall>a\<in>set ?xs. \<exists>r. shape a = [r, c]" by blast
  let ?z = "\<lparr>shape = [sum_list (map (\<lambda>a. shape a ! 0) ?xs), c], elems = concat (map elems ?xs)\<rparr>"
  have "np_vstack ?xs = Inr ?z" using ne sh by (rule vstack_2d)
  then have run: "M_vcat L st args = (Inr \<lparr>A = length st\<rparr>, st @ [?z])"
    by (simp only: M_vcat_def M_of_result_Inr)
  have fe: "row_of ?z = (\<lambda>i. block c i (concat (map elems ?xs)))"
    by (rule ext) (simp add: row_of_def)
  have rows: "matrix_rows ?z = concat (map matrix_rows ?xs)"
    using rows_of_vstack [OF all]
    by (simp only: matrix_rows_def [of ?z] ndarray.select_convs nth_Cons_0 fe)
  have m1: "map (\<lambda>a. shape a ! 0) ?xs = map (\<lambda>x. shape (unwrap st x) ! 0) args"
    by (simp add: comp_def)
  have m2: "map matrix_rows ?xs = map (\<lambda>x. matrix_rows (unwrap st x)) args"
    by (simp add: comp_def)
  have "M_shape (st @ [?z]) \<lparr>A = length st\<rparr> = [sum_list (map (\<lambda>x. shape (unwrap st x) ! 0) args), c]"
    by (simp add: M_shape_def comp_def)
  moreover have "matrix_rows ((st @ [?z]) ! A \<lparr>A = length st\<rparr>)
                   = concat (map (\<lambda>x. matrix_rows (unwrap st x)) args)"
    using rows by (simp only: m2 M.simps nth_append_length)
  ultimately show "\<exists>m st1. M_vcat L st args = (Inr m, st1)
         \<and> M_shape st1 m = [sum_list (map (\<lambda>x. shape (unwrap st x) ! 0) args), c]
         \<and> matrix_rows (st1 ! A m) = concat (map (\<lambda>x. matrix_rows (unwrap st x)) args)"
    using run by blast
next
  let ?xs = "map (unwrap st) args"
  assume h: "args \<noteq> [] \<and> (\<forall>x\<in>set args. wf_array (unwrap st x) \<and> (\<exists>c. shape (unwrap st x) = [r, c]))"
  then have ne: "?xs \<noteq> []" and all: "\<forall>a\<in>set ?xs. wf_array a \<and> (\<exists>c. shape a = [r, c])"
    by simp_all
  from all have sh: "\<forall>a\<in>set ?xs. \<exists>c. shape a = [r, c]" by blast
  let ?z = "\<lparr>shape = [r, sum_list (map (\<lambda>a. shape a ! 1) ?xs)],
             elems = concat (map (\<lambda>i. concat (map (\<lambda>a. block (shape a ! 1) i (elems a)) ?xs))
                                 [0..<r])\<rparr>"
  have "np_hstack ?xs = Inr ?z" using ne sh by (rule hstack_2d)
  then have run: "M_hcat L st args = (Inr \<lparr>A = length st\<rparr>, st @ [?z])"
    by (simp only: M_hcat_def M_of_result_Inr)
  have cols: "matrix_cols ?z = concat (map matrix_cols ?xs)"
    using all by (rule cols_of_hstack)
  have m2: "map matrix_cols ?xs = map (\<lambda>x. matrix_cols (unwrap st x)) args"
    by (simp add: comp_def)
  have "M_shape (st @ [?z]) \<lparr>A = length st\<rparr> = [r, sum_list (map (\<lambda>x. shape (unwrap st x) ! 1) args)]"
    by (simp add: M_shape_def comp_def)
  moreover have "matrix_cols ((st @ [?z]) ! A \<lparr>A = length st\<rparr>)
                   = concat (map (\<lambda>x. matrix_cols (unwrap st x)) args)"
    using cols by (simp only: m2 M.simps nth_append_length)
  ultimately show "\<exists>m st1. M_hcat L st args = (Inr m, st1)
         \<and> M_shape st1 m = [r, sum_list (map (\<lambda>x. shape (unwrap st x) ! 1) args)]
         \<and> matrix_cols (st1 ! A m) = concat (map (\<lambda>x. matrix_cols (unwrap st x)) args)"
    using run by blast
qed

lemma example_vcat:
  "M_vcat exact_lib [\<lparr>shape = [1, 2], elems = [1, 2]\<rparr>, \<lparr>shape = [2, 2], elems = [3, 4, 5, 6]\<rparr>]
     [OM \<lparr>A = 0\<rparr>, OM \<lparr>A = 1\<rparr>]
   = (Inr \<lparr>A = 2\<rparr>,
      [\<lparr>shape = [1, 2], elems = [1, 2]\<rparr>, \<lparr>shape = [2, 2], elems = [3, 4, 5, 6]\<rparr>,
       \<lparr>shape = [3, 2], elems = [1, 2, 3, 4, 5, 6]\<rparr>])"
  by code_simp

lemma example_hcat:
  "M_hcat exact_lib [\<lparr>shape = [2, 1], elems = [1, 2]\<rparr>, \<lparr>shape = [2, 2], elems = [3, 4, 5, 6]\<rparr>]
     [OM \<lparr>A = 0\<rparr>, OM \<lparr>A = 1\<rparr>]
   = (Inr \<lparr>A = 2\<rparr>,
      [\<lparr>shape = [2, 1], elems = [1, 2]\<rparr>, \<lparr>shape = [2, 2], elems = [3, 4, 5, 6]\<rparr>,
       \<lparr>shape = [2, 3], elems = [1, 3, 4, 2, 5, 6]\<rparr>])"
  by code_simp


theorem vcat_and_hcat_stack_matrices_witness:
  "M_vcat exact_lib [\<lparr>shape = [1, 2], elems = [1, 2]\<rparr>, \<lparr>shape = [2, 2], elems = [3, 4, 5, 6]\<rparr>]
     [OM \<lparr>A = 0\<rparr>, OM \<lparr>A = 1\<rparr>]
   = (Inr \<lparr>A = 2\<rparr>,
      [\<lparr>shape = [1, 2], elems = [1, 2]\<rparr>, \<lparr>shape = [2, 2], elems = [3, 4, 5, 6]\<rparr>,
       \<lparr>shape = [3, 2], elems = [1, 2, 3, 4, 5, 6]\<rparr>])
   \<and> matrix_rows \<lparr>shape = [3, 2], elems = [1, 2, 3, 4, 5, 6 :: real]\<rparr> = [[1, 2], [3, 4], [5, 6]]
   \<and> M_hcat exact_lib [\<lparr>shape = [2, 1], elems = [1, 2]\<rparr>, \<lparr>shape = [2, 2], elems = [3, 4, 5, 6]\<rparr>]
     [OM \<lparr>A = 0\<rparr>, OM \<lparr>A = 1\<rparr>]
   = (Inr \<lparr>A = 2\<rparr>,
      [\<lparr>shape = [2, 1], elems = [1, 2]\<rparr>, \<lparr>shape = [2, 2], elems = [3, 4, 5, 6]\<rparr>,
       \<lparr>shape = [2, 3], elems = [1, 3, 4, 2, 5, 6]\<rparr>])
   \<and> matrix_cols \<lparr>shape = [2, 3], elems = [1, 3, 4, 2, 5, 6 :: real]\<rparr> = [[1, 2], [3, 5], [4, 6]]"
proof -
  let ?args = "[OM \<lparr>A = 0\<rparr>, OM \<lparr>A = 1\<rparr>] :: real operand list"
  let ?sv = "[\<lparr>shape = [1, 2], elems = [1, 2 :: real]\<rparr>, \<lparr>shape = [2, 2], elems = [3, 4, 5, 6]\<rparr>]"
  let ?sh = "[\<lparr>shape = [2, 1], elems = [1, 2 :: real]\<rparr>, \<lparr>shape = [2, 2], elems = [3, 4, 5, 6]\<rparr>]"
  have hv: "?args \<noteq> [] \<and> (\<forall>x\<in>set ?args. wf_array (unwrap ?sv x) \<and> (\<exists>r. shape (unwrap ?sv x) = [r, 2]))"
    by (simp add: wf_array_def)
  have hh: "?args \<noteq> [] \<and> (\<forall>x\<in>set ?args. wf_array (unwrap ?sh x) \<and> (\<exists>c. shape (unwrap ?sh x) = [2, c]))"
    by (simp add: wf_array_def)
  from vcat_and_hcat_stack_matrices [of ?args ?sv 2 exact_lib, THEN conjunct1] hv
  obtain m st1 where run: "M_vcat exact_lib ?sv ?args = (Inr m, st1)"
    and rows: "matrix_rows (st1 ! A m) = concat (map (\<lambda>x. matrix_rows (unwrap ?sv x)) ?args)"
    by blast
  from run have "m = \<lparr>A = 2\<rparr> \<and> st1 = ?sv @ [\<lparr>shape = [3, 2], elems = [1, 2, 3, 4, 5, 6]\<rparr>]"
    unfolding example_vcat by simp
  with rows have "matrix_rows \<lparr>shape = [3, 2], elems = [1, 2, 3, 4, 5, 6 :: real]\<rparr>
                    = concat (map (\<lambda>x. matrix_rows (unwrap ?sv x)) ?args)"
    by simp
  also have "\<dots> = [[1, 2], [3, 4], [5, 6]]"
    by code_simp
  finally have r: "matrix_rows \<lparr>shape = [3, 2], elems = [1, 2, 3, 4, 5, 6 :: real]\<rparr>
                     = [[1, 2], [3, 4], [5, 6]]" .
  from vcat_and_hcat_stack_matrices [of ?args ?sh _ exact_lib 2, THEN conjunct2] hh
  obtain m2 st2 where run2: "M_hcat exact_lib ?sh ?args = (Inr m2, st2)"
    and cols: "matrix_cols (st2 ! A m2) = concat (map (\<lambda>x. matrix_cols (unwrap ?sh x)) ?args)"
    by blast
  from run2 have "m2 = \<lparr>A = 2\<rparr> \<and> st2 = ?sh @ [\<lparr>shape = [2, 3], elems = [1, 3, 4, 2, 5, 6]\<rparr>]"
    unfolding example_hcat by simp
  with cols have "matrix_cols \<lparr>shape = [2, 3], elems = [1, 3, 4, 2, 5, 6 :: real]\<rparr>
                    = concat (map (\<lambda>x. matrix_cols (unwrap ?sh x)) ?args)"
    by simp
  also have "\<dots> = [[1, 2], [3, 5], [4, 6]]"
    by code_simp
  finally have c: "matrix_cols \<lparr>shape = [2, 3], elems = [1, 3, 4, 2, 5, 6 :: real]\<rparr>
                     = [[1, 2], [3, 5], [4, 6]]" .
  from example_vcat example_hcat r c show ?thesis by blast
qed

section \<open>Operations as call-throughs to the library\<close>

lemma M_of_result_call_through: "M_of_result L st r = call_through st r"
  by (cases r) (simp_all add: M_of_result_def call_through_def alloc_def np_copy_def)

lemma M_init_nparray:
  "M_init L st (DArr a) = (Inr \<lparr>A = length st\<rparr>, st @ [array_of_nparray a])"
  by (simp add: alloc_def)

lemma M_eig_eq:
  "M_eig L st a =
     (case linalg_eig L (st ! A a) of
        Inl e \<Rightarrow> (Inl e, st)
      | Inr (w, v) \<Rightarrow>
          (Inr (\<lparr>A = length st\<rparr>, \<lparr>A = Suc (length st)\<rparr>),
           st @ [array_of_nparray w, array_of_nparray v]))"
  by (simp add: M_eig_def alloc_def split: sum.split prod.split)

text \<open>
  What each operation calls. Every arithmetic operation of the wrapper is a call-through to
  the library routine on the unwrapped arrays, with no algorithm of its own: \<open>A + B\<close>
  and \<open>A - B\<close> are the library's sum and difference (for operands of one shape, element
  by element), \<open>A * B\<close> is the matrix product, \<open>A / B\<close> is the matrix product of \<open>A\<close> and
  the library's inverse of \<open>B\<close>, \<open>A ** p\<close> is the library's matrix power, \<open>inv\<close> and \<open>pinv\<close>
  return a new matrix holding exactly the library's inverse and pseudo-inverse, \<open>det\<close>
  and \<open>rank\<close> return the library's value as it is. \<open>eig\<close> returns two new matrices
  holding the library's eigenvalues and eigenvectors converted to float arrays: exactly
  the library's arrays when they are real, their real parts when they are complex.
\<close>

theorem operations_are_call_throughs:
  "M_add L st a other = call_through st (np_binop (f_add L) (st ! A a) (unwrap st other))
   \<and> M_sub L st a other = call_through st (np_binop (f_sub L) (st ! A a) (unwrap st other))
   \<and> (wf_array (st ! A a) \<and> wf_array (unwrap st other) \<and> shape (unwrap st other) = shape (st ! A a)
        \<longrightarrow> M_add L st a other
              = call_through st (Inr \<lparr>shape = shape (st ! A a),
                                      elems = map2 (f_add L) (elems (st ! A a)) (elems (unwrap st other))\<rparr>)
          \<and> M_sub L st a other
              = call_through st (Inr \<lparr>shape = shape (st ! A a),
                                      elems = map2 (f_sub L) (elems (st ! A a)) (elems (unwrap st other))\<rparr>))
   \<and> M_mul L st a other = call_through st (np_matmul L (st ! A a) (unwrap st other))
   \<and> M_truediv L st a other
       = call_through st (case linalg_inv L (unwrap st other) of
                            Inl e \<Rightarrow> Inl e
                          | Inr b \<Rightarrow> np_matmul L (st ! A a) b)
   \<and> M_pow L st a p = call_through st (linalg_matrix_power L (st ! A a) p)
   \<and> M_inv L st a = call_through st (linalg_inv L (st ! A a))
   \<and> M_pinv L st a = call_through st (linalg_pinv L (st ! A a))
   \<and> M_det L st a = (linalg_det L (st ! A a), st)
   \<and> M_rank L st a = (linalg_matrix_rank L (st ! A a), st)
   \<and> M_eig L st a
       = (case linalg_eig L (st ! A a) of
            Inl e \<Rightarrow> (Inl e, st)
          | Inr (w, v) \<Rightarrow>
              (Inr (\<lparr>A = length st\<rparr>, \<lparr>A = Suc (length st)\<rparr>),
               st @ [array_of_nparray w, array_of_nparray v]))
   \<and> array_of_nparray (FloatArr x) = x
   \<and> array_of_nparray (ComplexArr y) = \<lparr>shape = shape y, elems = map fst (elems y)\<rparr>"
proof (intro conjI impI)
  show "M_truediv L st a other
       = call_through st (case linalg_inv L (unwrap st other) of
                            Inl e \<Rightarrow> Inl e
                          | Inr b \<Rightarrow> np_matmul L (st ! A a) b)"
    by (simp add: M_truediv_def M_of_result_call_through call_through_def split: sum.split)
  show "M_eig L st a
       = (case linalg_eig L (st ! A a) of
            Inl e \<Rightarrow> (Inl e, st)
          | Inr (w, v) \<Rightarrow>
              (Inr (\<lparr>A = length st\<rparr>, \<lparr>A = Suc (length st)\<rparr>),
               st @ [array_of_nparray w, array_of_nparray v]))"
    by (rule M_eig_eq)
next
  assume h: "wf_array (st ! A a) \<and> wf_array (unwrap st other)
               \<and> shape (unwrap st other) = shape (st ! A a)"
  then show "M_add L st a other
              = call_through st (Inr \<lparr>shape = shape (st ! A a),
                                      elems = map2 (f_add L) (elems (st ! A a)) (elems (unwrap st other))\<rparr>)"
    by (simp add: M_add_def M_of_result_call_through binop_same_shape)
  from h show "M_sub L st a other
              = call_through st (Inr \<lparr>shape = shape (st ! A a),
                                      elems = map2 (f_sub L) (elems (st ! A a)) (elems (unwrap st other))\<rparr>)"
    by (simp add: M_sub_def M_of_result_call_through binop_same_shape)
qed (simp_all add: M_add_def M_sub_def M_mul_def M_pow_def M_inv_def M_pinv_def M_det_def
      M_rank_def M_of_result_call_through np_copy_def)


lemma example_add:
  "M_add exact_lib [\<lparr>shape = [2, 2], elems = [1, 2, 3, 4]\<rparr>, \<lparr>shape = [2, 2], elems = [5, 6, 7, 8]\<rparr>]
     \<lparr>A = 0\<rparr> (OM \<lparr>A = 1\<rparr>)
   = (Inr \<lparr>A = 2\<rparr>,
      [\<lparr>shape = [2, 2], elems = [1, 2, 3, 4]\<rparr>, \<lparr>shape = [2, 2], elems = [5, 6, 7, 8]\<rparr>,
       \<lparr>shape = [2, 2], elems = [6, 8, 10, 12]\<rparr>])"
  by code_simp

theorem operations_are_call_throughs_witness:
  "wf_array ([\<lparr>shape = [2, 2], elems = [1, 2, 3, 4 :: real]\<rparr>,
              \<lparr>shape = [2, 2], elems = [5, 6, 7, 8]\<rparr>] ! A \<lparr>A = 0\<rparr>)
   \<and> wf_array (unwrap [\<lparr>shape = [2, 2], elems = [1, 2, 3, 4 :: real]\<rparr>,
                        \<lparr>shape = [2, 2], elems = [5, 6, 7, 8]\<rparr>] (OM \<lparr>A = 1\<rparr>))
   \<and> M_add exact_lib [\<lparr>shape = [2, 2], elems = [1, 2, 3, 4]\<rparr>,
                       \<lparr>shape = [2, 2], elems = [5, 6, 7, 8]\<rparr>] \<lparr>A = 0\<rparr> (OM \<lparr>A = 1\<rparr>)
       = (Inr \<lparr>A = 2\<rparr>,
          [\<lparr>shape = [2, 2], elems = [1, 2, 3, 4]\<rparr>, \<lparr>shape = [2, 2], elems = [5, 6, 7, 8]\<rparr>,
           \<lparr>shape = [2, 2], elems = [6, 8, 10, 12]\<rparr>])
   \<and> call_through [\<lparr>shape = [2, 2], elems = [1, 2, 3, 4 :: real]\<rparr>,
                     \<lparr>shape = [2, 2], elems = [5, 6, 7, 8]\<rparr>]
         (Inr \<lparr>shape = [2, 2], elems = map2 (f_add exact_lib) [1, 2, 3, 4] [5, 6, 7, 8]\<rparr>)
       = (Inr \<lparr>A = 2\<rparr>,
          [\<lparr>shape = [2, 2], elems = [1, 2, 3, 4]\<rparr>, \<lparr>shape = [2, 2], elems = [5, 6, 7, 8]\<rparr>,
           \<lparr>shape = [2, 2], elems = [6, 8, 10, 12]\<rparr>])"
proof -
  let ?x = "\<lparr>shape = [2, 2], elems = [1, 2, 3, 4 :: real]\<rparr>"
  let ?y = "\<lparr>shape = [2, 2], elems = [5, 6, 7, 8 :: real]\<rparr>"
  let ?st = "[?x, ?y]"
  have wf: "wf_array (?st ! A \<lparr>A = 0\<rparr>)" "wf_array (unwrap ?st (OM \<lparr>A = 1\<rparr>))"
    by (simp_all add: wf_array_def)
  have sh: "shape (unwrap ?st (OM \<lparr>A = 1\<rparr>)) = shape (?st ! A \<lparr>A = 0\<rparr>)" by simp
  from operations_are_call_throughs [of exact_lib ?st "\<lparr>A = 0\<rparr>" "OM \<lparr>A = 1\<rparr>"] wf sh
  have "M_add exact_lib ?st \<lparr>A = 0\<rparr> (OM \<lparr>A = 1\<rparr>)
          = call_through ?st (Inr \<lparr>shape = shape (?st ! A \<lparr>A = 0\<rparr>),
               elems = map2 (f_add exact_lib) (elems (?st ! A \<lparr>A = 0\<rparr>))
                            (elems (unwrap ?st (OM \<lparr>A = 1\<rparr>)))\<rparr>)"
    by blast
  then have "call_through ?st (Inr \<lparr>shape = [2, 2],
               elems = map2 (f_add exact_lib) [1, 2, 3, 4] [5, 6, 7, 8]\<rparr>)
          = (Inr \<lparr>A = 2\<rparr>, [?x, ?y, \<lparr>shape = [2, 2], elems = [6, 8, 10, 12]\<rparr>])"
    unfolding example_add by simp
  with wf example_add show ?thesis by blast
qed

text \<open>
  C5. All operations but \<open>eig\<close> return exactly what the library returns (above). \<open>eig\<close>
  passes the library's eigenvalues and eigenvectors through \<open>M(...)\<close>, which builds a
  float array, and so does not return the library's decomposition where that is complex.
  For the rotation \<open>[[0, -1], [1, 0]]\<close> NumPy gives the eigenvalues \<open>i\<close> and \<open>-i\<close> with the
  eigenvectors \<open>(s, -si)\<close> and \<open>(s, si)\<close>, where \<open>s\<close> is \<open>1 / sqrt 2\<close> rounded. With any
  library that gives this answer, \<open>eig\<close> returns the matrices \<open>[0, 0]\<close> and
  \<open>[[s, s], [0, 0]]\<close>: the real parts, which are neither eigenvalues nor eigenvectors of
  the rotation.
\<close>

theorem eig_keeps_real_parts_only:
  fixes L :: "real numlib" and s :: real
  shows
  "M_eig (L\<lparr>linalg_eig :=
              (\<lambda>a. if a = \<lparr>shape = [2, 2], elems = [0, - 1, 1, 0]\<rparr>
                    then Inr (ComplexArr \<lparr>shape = [2], elems = [(0, 1), (0, - 1)]\<rparr>,
                              ComplexArr \<lparr>shape = [2, 2],
                                          elems = [(s, 0), (s, 0), (0, - s), (0, s)]\<rparr>)
                    else linalg_eig L a)\<rparr>)
         [\<lparr>shape = [2, 2], elems = [0, - 1, 1, 0]\<rparr>] \<lparr>A = 0\<rparr>
     = (Inr (\<lparr>A = 1\<rparr>, \<lparr>A = 2\<rparr>),
        [\<lparr>shape = [2, 2], elems = [0, - 1, 1, 0]\<rparr>,
         \<lparr>shape = [2], elems = [0, 0]\<rparr>,
         \<lparr>shape = [2, 2], elems = [s, s, 0, 0]\<rparr>])
   \<and> M_eig L st a
       = (case linalg_eig L (st ! A a) of
            Inl e \<Rightarrow> (Inl e, st)
          | Inr (w, v) \<Rightarrow>
              (Inr (\<lparr>A = length st\<rparr>, \<lparr>A = Suc (length st)\<rparr>),
               st @ [array_of_nparray w, array_of_nparray v]))"
  by (simp add: M_eig_eq)

section \<open>Errors of the library\<close>

lemma propagates_M_of_result: "propagates (M_of_result L st r) r st"
  by (cases r) (auto simp: propagates_def M_of_result_def alloc_def nth_append)

lemma propagates_pure: "propagates (r, st) r st"
  by (simp add: propagates_def)

lemma propagates_truediv:
  "propagates (M_truediv L st a other)
     (case linalg_inv L (unwrap st other) of Inl e \<Rightarrow> Inl e | Inr b \<Rightarrow> np_matmul L (st ! A a) b)
     st"
proof (cases "linalg_inv L (unwrap st other)")
  case (Inl e)
  then show ?thesis by (simp add: M_truediv_def propagates_def)
next
  case (Inr b)
  then show ?thesis by (simp add: M_truediv_def propagates_M_of_result)
qed

lemma propagates_eig: "propagates (M_eig L st a) (linalg_eig L (st ! A a)) st"
  by (cases "linalg_eig L (st ! A a)")
     (auto simp: M_eig_eq propagates_def nth_append split: prod.split)

lemma matmul_nonconformable:
  "shape x = [m, k] \<Longrightarrow> shape y = [k', n] \<Longrightarrow> k \<noteq> k' \<Longrightarrow> np_matmul L x y = Inl ValueError"
  by (simp add: np_matmul_def)

text \<open>
  C7. The wrapper adds no failure handling of its own. Every operation raises an
  exception exactly when the library routine it calls on the unwrapped operands raises
  it (for \<open>A / B\<close>: the inverse of \<open>B\<close>, and then the matrix product), a failed operation
  leaves the store as it was, and whether it fails or not the operands' arrays are
  unchanged. In particular \<open>inv\<close> of a matrix the library finds singular raises the
  library's \<open>LinAlgError\<close>, and \<open>A * B\<close> for shapes \<open>(m, k)\<close> and \<open>(k', n)\<close> with \<open>k \<noteq> k'\<close> raises
  \<open>ValueError\<close>.
\<close>

theorem operations_propagate_library_errors:
  "propagates (M_add L st a other) (np_binop (f_add L) (st ! A a) (unwrap st other)) st
   \<and> propagates (M_sub L st a other) (np_binop (f_sub L) (st ! A a) (unwrap st other)) st
   \<and> propagates (M_mul L st a other) (np_matmul L (st ! A a) (unwrap st other)) st
   \<and> propagates (M_truediv L st a other)
        (case linalg_inv L (unwrap st other) of
           Inl e \<Rightarrow> Inl e
         | Inr b \<Rightarrow> np_matmul L (st ! A a) b) st
   \<and> propagates (M_pow L st a p) (linalg_matrix_power L (st ! A a) p) st
   \<and> propagates (M_emul L st a other) (np_binop (f_mul L) (st ! A a) (unwrap st other)) st
   \<and> propagates (M_ediv L st a other) (np_binop (f_div L) (st ! A a) (unwrap st other)) st
   \<and> propagates (M_epow L st a other) (np_binop (f_pow L) (st ! A a) (unwrap st other)) st
   \<and> propagates (M_inv L st a) (linalg_inv L (st ! A a)) st
   \<and> propagates (M_pinv L st a) (linalg_pinv L (st ! A a)) st
   \<and> propagates (M_det L st a) (linalg_det L (st ! A a)) st
   \<and> propagates (M_rank L st a) (linalg_matrix_rank L (st ! A a)) st
   \<and> propagates (M_eig L st a) (linalg_eig L (st ! A a)) st
   \<and> propagates (M_hcat L st args) (np_hstack (map (unwrap st) args)) st
   \<and> propagates (M_vcat L st args) (np_vstack (map (unwrap st) args)) st
   \<and> (linalg_inv L (st ! A a) = Inl LinAlgError \<longrightarrow> M_inv L st a = (Inl LinAlgError, st))
   \<and> (shape (st ! A a) = [m, k] \<and> shape (unwrap st other) = [k', n] \<and> k \<noteq> k'
        \<longrightarrow> M_mul L st a other = (Inl ValueError, st))"
proof (intro conjI impI)
  show "propagates (M_truediv L st a other)
        (case linalg_inv L (unwrap st other) of
           Inl e \<Rightarrow> Inl e
         | Inr b \<Rightarrow> np_matmul L (st ! A a) b) st"
    by (rule propagates_truediv)
  show "propagates (M_eig L st a) (linalg_eig L (st ! A a)) st"
    by (rule propagates_eig)
  show "propagates (M_det L st a) (linalg_det L (st ! A a)) st"
    unfolding M_det_def by (rule propagates_pure)
  show "propagates (M_rank L st a) (linalg_matrix_rank L (st ! A a)) st"
    unfolding M_rank_def by (rule propagates_pure)
next
  assume "linalg_inv L (st ! A a) = Inl LinAlgError"
  then show "M_inv L st a = (Inl LinAlgError, st)"
    by (simp add: M_inv_def M_of_result_Inl)
next
  assume "shape (st ! A a) = [m, k] \<and> shape (unwrap st other) = [k', n] \<and> k \<noteq> k'"
  then have sx: "shape (st ! A a) = [m, k]" and sy: "shape (unwrap st other) = [k', n]"
    and ne: "k \<noteq> k'"
    by blast+
  from sx sy ne have "np_matmul L (st ! A a) (unwrap st other) = Inl ValueError"
    by (rule matmul_nonconformable)
  then show "M_mul L st a other = (Inl ValueError, st)"
    by (simp add: M_mul_def M_of_result_Inl)
qed (simp_all only: M_add_def M_sub_def M_mul_def M_pow_def M_emul_def M_ediv_def M_epow_def
      M_inv_def M_pinv_def M_hcat_def M_vcat_def propagates_M_of_result)

lemma example_inv_singular:
  "M_inv exact_lib [\<lparr>shape = [2, 2], elems = [1, 2, 2, 4]\<rparr>] \<lparr>A = 0\<rparr>
     = (Inl LinAlgError, [\<lparr>shape = [2, 2], elems = [1, 2, 2, 4]\<rparr>])"
  by code_simp

theorem operations_propagate_library_errors_witness:
  "linalg_inv exact_lib ([\<lparr>shape = [2, 2], elems = [1, 2, 2, 4]\<rparr>] ! A \<lparr>A = 0\<rparr>) = Inl LinAlgError
   \<and> M_inv exact_lib [\<lparr>shape = [2, 2], elems = [1, 2, 2, 4]\<rparr>] \<lparr>A = 0\<rparr>
       = (Inl LinAlgError, [\<lparr>shape = [2, 2], elems = [1, 2, 2, 4]\<rparr>])
   \<and> shape ([\<lparr>shape = [2, 2], elems = [1, 2, 2, 4 :: real]\<rparr>] ! A \<lparr>A = 0\<rparr>) = [2, 2]
   \<and> shape (unwrap [\<lparr>shape = [2, 2], elems = [1, 2, 2, 4 :: real]\<rparr>]
               (OArr \<lparr>shape = [3, 1], elems = [1, 2, 3]\<rparr>)) = [3, 1]
   \<and> (2::nat) \<noteq> 3
   \<and> M_mul exact_lib [\<lparr>shape = [2, 2], elems = [1, 2, 2, 4]\<rparr>] \<lparr>A = 0\<rparr>
         (OArr \<lparr>shape = [3, 1], elems = [1, 2, 3]\<rparr>)
       = (Inl ValueError, [\<lparr>shape = [2, 2], elems = [1, 2, 2, 4]\<rparr>])"
proof -
  let ?x = "\<lparr>shape = [2, 2], elems = [1, 2, 2, 4 :: real]\<rparr>"
  let ?y = "\<lparr>shape = [3, 1], elems = [1, 2, 3 :: real]\<rparr>"
  note inst = operations_propagate_library_errors
                [of exact_lib "[?x]" "\<lparr>A = 0\<rparr>" "OArr ?y" _ _ 2 2 3 1]
  have sing: "linalg_inv exact_lib ([?x] ! A \<lparr>A = 0\<rparr>) = Inl LinAlgError"
    by (simp add: exact_lib_def inv_2x2_def)
  have sh: "shape ([?x] ! A \<lparr>A = 0\<rparr>) = [2, 2] \<and> shape (unwrap [?x] (OArr ?y)) = [3, 1]
             \<and> (2::nat) \<noteq> 3"
    by simp
  from inst sing have a: "M_inv exact_lib [?x] \<lparr>A = 0\<rparr> = (Inl LinAlgError, [?x])" by blast
  from inst sh have b: "M_mul exact_lib [?x] \<lparr>A = 0\<rparr> (OArr ?y) = (Inl ValueError, [?x])"
    by blast
  from sing a sh b show ?thesis by blast
qed

section \<open>Matrices hold floats\<close>

lemma np_copy_id: "np_copy a = a"
  by (cases a) (simp add: np_copy_def)

lemma collect_Inr_D: "collect rs = Inr xs \<Longrightarrow> rs = map Inr xs"
proof (induction rs arbitrary: xs)
  case Nil
  then show ?case by simp
next
  case (Cons r rs)
  then show ?case by (cases r) (auto split: sum.splits)
qed

lemma M_init_obj_Inr:
  assumes "M_init L st (DObj obj) = (Inr m, st1)"
  shows "map (to_float L) (obj_leaves obj) = map Inr (elems (st1 ! A m))"
proof -
  from assms obtain s xs where "collect (map (to_float L) (obj_leaves obj)) = Inr xs"
    and "m = \<lparr>A = length st\<rparr>" and "st1 = st @ [\<lparr>shape = s, elems = xs\<rparr>]"
    by (auto simp: array_of_obj_def alloc_def split: option.splits sum.splits)
  then show ?thesis using collect_Inr_D by fastforce
qed

lemma M_init_obj_complex:
  assumes "PComplex x y \<in> set (obj_leaves obj)"
  shows "\<exists>e. M_init L st (DObj obj) = (Inl e, st)"
proof (cases "array_of_obj L obj")
  case (Inl e)
  then show ?thesis by simp
next
  case (Inr a)
  then obtain xs where "collect (map (to_float L) (obj_leaves obj)) = Inr xs"
    by (auto simp: array_of_obj_def split: option.splits sum.splits)
  then have "map (to_float L) (obj_leaves obj) = map Inr xs" by (rule collect_Inr_D)
  moreover have "Inl TypeError \<in> set (map (to_float L) (obj_leaves obj))"
  proof -
    have "to_float L (PComplex x y) \<in> to_float L ` set (obj_leaves obj)"
      using assms by (rule imageI)
    then show ?thesis by simp
  qed
  ultimately have "Inl TypeError \<in> set (map Inr xs)" by simp
  then show ?thesis by auto
qed

lemma example_grid_1x2: "lit_grid ''1 2'' = [[''1'', ''2'']]"
  by (simp add: lit_grid_def lit_rows_def lit_tokens_def isspace_def)

lemma mat_1_2:
  assumes "str_to_float L ''1'' = Some one" and "str_to_float L ''2'' = Some two"
  shows "mat L st ''1 2'' = (Inr \<lparr>A = length st\<rparr>, st @ [\<lparr>shape = [1, 2], elems = [one, two]\<rparr>])"
  using assms
  by (simp add: mat_cases example_grid_1x2 numeric_def rectangular_def grid_values_def)

text \<open>
  C10 (as amended). Every matrix built from data that is not an \<open>M\<close> stores floats:
  each number of the data is converted by \<open>float\<close>, so an \<open>int\<close> is coerced, and
  \<open>mat("1 2")(1, 1)\<close> is the float that \<open>float("1")\<close> gives. Construction from data
  with a Python \<open>complex\<close> in it fails, whatever else the data holds, and leaves the store
  as it was (for the list of one complex number the exception is \<open>TypeError\<close>);
  construction from a complex NumPy array does not fail: it stores the real parts. The
  conjugate transpose \<open>H\<close> returns the same as the transpose \<open>T\<close>, on every matrix.
\<close>

theorem matrices_hold_floats:
  "(\<forall>m st1. M_init L st (DObj obj) = (Inr m, st1)
       \<longrightarrow> map (to_float L) (obj_leaves obj) = map Inr (elems (st1 ! A m)))
   \<and> to_float L (PInt i) = (case int_to_float L i of None \<Rightarrow> Inl OverflowError | Some v \<Rightarrow> Inr v)
   \<and> (str_to_float L ''1'' = Some one \<and> str_to_float L ''2'' = Some two
        \<longrightarrow> (\<exists>m st1. mat L st ''1 2'' = (Inr m, st1)
               \<and> M_call st1 m [IInt 1, IInt 1] = Inr (Scalar one)))
   \<and> (PComplex x y \<in> set (obj_leaves obj) \<longrightarrow> (\<exists>e. M_init L st (DObj obj) = (Inl e, st)))
   \<and> M_init L st (DObj (PList [PNum (PComplex x y)])) = (Inl TypeError, st)
   \<and> M_init L st (DArr (ComplexArr c))
       = (Inr \<lparr>A = length st\<rparr>, st @ [\<lparr>shape = shape c, elems = map fst (elems c)\<rparr>])
   \<and> M_H L st a = M_T L st a"
proof (intro conjI allI impI)
  fix m st1
  assume "M_init L st (DObj obj) = (Inr m, st1)"
  then show "map (to_float L) (obj_leaves obj) = map Inr (elems (st1 ! A m))"
    by (rule M_init_obj_Inr)
next
  assume "str_to_float L ''1'' = Some one \<and> str_to_float L ''2'' = Some two"
  then have run: "mat L st ''1 2''
      = (Inr \<lparr>A = length st\<rparr>, st @ [\<lparr>shape = [1, 2], elems = [one, two]\<rparr>])"
    by (intro mat_1_2) simp_all
  have "M_call (st @ [\<lparr>shape = [1, 2], elems = [one, two]\<rparr>]) \<lparr>A = length st\<rparr> [IInt 1, IInt 1]
          = Inr (Scalar one)"
    by (simp add: M_call_def np_getitem_def int_index_def)
  with run show "\<exists>m st1. mat L st ''1 2'' = (Inr m, st1)
                   \<and> M_call st1 m [IInt 1, IInt 1] = Inr (Scalar one)"
    by blast
next
  assume "PComplex x y \<in> set (obj_leaves obj)"
  then show "\<exists>e. M_init L st (DObj obj) = (Inl e, st)" by (rule M_init_obj_complex)
next
  show "M_init L st (DObj (PList [PNum (PComplex x y)])) = (Inl TypeError, st)"
    by (simp add: array_of_obj_def)
  show "M_H L st a = M_T L st a"
    by (simp add: M_H_def M_T_def np_copy_id)
qed (simp_all add: alloc_def)

lemma example_init_ints:
  "M_init exact_lib [] (DObj (PList [PNum (PInt 1), PNum (PInt 2)]))
     = (Inr \<lparr>A = 0\<rparr>, [\<lparr>shape = [2], elems = [1, 2]\<rparr>])"
  by (simp add: array_of_obj_def alloc_def exact_lib_def)

theorem matrices_hold_floats_witness:
  "M_init exact_lib [] (DObj (PList [PNum (PInt 1), PNum (PInt 2)]))
     = (Inr \<lparr>A = 0\<rparr>, [\<lparr>shape = [2], elems = [1, 2]\<rparr>])
   \<and> map (to_float exact_lib) (obj_leaves (PList [PNum (PInt 1), PNum (PInt 2)]))
       = map Inr (elems ([\<lparr>shape = [2], elems = [1, 2]\<rparr>] ! A \<lparr>A = 0\<rparr>))
   \<and> str_to_float exact_lib ''1'' = Some 1 \<and> str_to_float exact_lib ''2'' = Some 2
   \<and> mat exact_lib [] ''1 2'' = (Inr \<lparr>A = 0\<rparr>, [\<lparr>shape = [1, 2], elems = [1, 2]\<rparr>])
   \<and> PComplex 0 1 \<in> set (obj_leaves (PList [PNum (PFloat 3), PNum (PComplex 0 (1::real))]))
   \<and> M_init exact_lib [] (DObj (PList [PNum (PFloat 3), PNum (PComplex 0 1)])) = (Inl TypeError, [])"
proof -
  let ?ints = "PList [PNum (PInt 1), PNum (PInt 2)] :: real pyobj"
  let ?cpx = "PList [PNum (PFloat 3), PNum (PComplex 0 (1::real))]"
  note inst = matrices_hold_floats [of exact_lib "[]" ?ints _ 1 2]
  from inst example_init_ints
  have leaves: "map (to_float exact_lib) (obj_leaves ?ints)
                  = map Inr (elems ([\<lparr>shape = [2], elems = [1, 2]\<rparr>] ! A \<lparr>A = 0\<rparr>))"
    by blast
  have digits: "str_to_float exact_lib ''1'' = Some 1 \<and> str_to_float exact_lib ''2'' = Some 2"
    by (simp add: exact_lib_def float_of_digits_def digit_val_def)
  have run: "mat exact_lib [] ''1 2'' = (Inr \<lparr>A = 0\<rparr>, [\<lparr>shape = [1, 2], elems = [1, 2]\<rparr>])"
    by code_simp
  have mem: "PComplex 0 1 \<in> set (obj_leaves ?cpx)" by simp
  have fails: "M_init exact_lib [] (DObj ?cpx) = (Inl TypeError, [])"
    by (simp add: array_of_obj_def)
  from example_init_ints leaves digits run mem fails show ?thesis by blast
qed

text \<open>
  The claim as stated, that construction from complex-valued data fails, does not hold
  for a complex array: \<open>M(np.array([1j]))\<close> is the matrix \<open>[0.]\<close>.
\<close>

theorem complex_array_is_accepted_counterexample:
  "M_init exact_lib [] (DArr (ComplexArr \<lparr>shape = [1], elems = [(0, 1)]\<rparr>))
     = (Inr \<lparr>A = 0\<rparr>, [\<lparr>shape = [1], elems = [0]\<rparr>])"
  by (simp add: alloc_def)

end
